theory Spec2Isabelle
  imports Complex_Main
begin

section \<open>Errors, outcomes and arrays\<close>

text \<open>
  The notebook \<^verbatim>\<open>Markov_vs_MonteCarlo.ipynb\<close> holds a policy-iteration solver and a
  Monte Carlo estimator. Python's floats are modelled as the reals (rounding is not
  modelled), states and actions as naturals. A pure function that can raise returns
  \<open>error + 'a\<close>; a function that drives the environment or the random generator takes
  the state \<open>'w\<close> of the outside world and returns it, also when it raises.
\<close>

datatype error =
    IndexError
  | KeyError
  | ValueError
  | TypeError
  | NameError
  | UnboundLocalError
  | ZeroDivisionError
  | FloatDivideByZero
    \<comment> \<open>numpy does not raise on a float division by zero: it warns and stores inf or nan,
        which a real-valued cell cannot hold. The model stops the run with this value, so
        that a division by zero is visible.\<close>

text \<open>The result of a run with a \<^verbatim>\<open>while\<close> loop: the loop of the model has fuel.\<close>

datatype 'a outcome = Returned 'a | Raised error | OutOfFuel

text \<open>A numpy array of floats with two, respectively three, axes: its shape and its cells.\<close>

record ndarray2 =
  nrows :: nat
  ncols :: nat
  elems :: "nat \<Rightarrow> nat \<Rightarrow> real"

record ndarray3 =
  dim0 :: nat
  dim1 :: nat
  dim2 :: nat
  cells :: "nat \<Rightarrow> nat \<Rightarrow> nat \<Rightarrow> real"

definition np_zeros2 :: "nat \<Rightarrow> nat \<Rightarrow> ndarray2" where
  "np_zeros2 r c = \<lparr>nrows = r, ncols = c, elems = (\<lambda>i j. 0)\<rparr>"

definition np_zeros3 :: "nat \<Rightarrow> nat \<Rightarrow> nat \<Rightarrow> ndarray3" where
  "np_zeros3 a b c = \<lparr>dim0 = a, dim1 = b, dim2 = c, cells = (\<lambda>i j k. 0)\<rparr>"

definition in2 :: "ndarray2 \<Rightarrow> nat \<Rightarrow> nat \<Rightarrow> bool" where
  "in2 a i j = (i < nrows a \<and> j < ncols a)"

definition in3 :: "ndarray3 \<Rightarrow> nat \<Rightarrow> nat \<Rightarrow> nat \<Rightarrow> bool" where
  "in3 a i j k = (i < dim0 a \<and> j < dim1 a \<and> k < dim2 a)"

definition set2 :: "ndarray2 \<Rightarrow> nat \<Rightarrow> nat \<Rightarrow> real \<Rightarrow> ndarray2" where
  "set2 a i j v = a\<lparr>elems := (\<lambda>i' j'. if i' = i \<and> j' = j then v else elems a i' j')\<rparr>"

definition set3 :: "ndarray3 \<Rightarrow> nat \<Rightarrow> nat \<Rightarrow> nat \<Rightarrow> real \<Rightarrow> ndarray3" where
  "set3 a i j k v =
     a\<lparr>cells := (\<lambda>i' j' k'. if i' = i \<and> j' = j \<and> k' = k then v else cells a i' j' k')\<rparr>"

text \<open>\<^verbatim>\<open>a + c\<close> for a scalar \<open>c\<close>.\<close>

definition add_scalar2 :: "ndarray2 \<Rightarrow> real \<Rightarrow> ndarray2" where
  "add_scalar2 a c = a\<lparr>elems := (\<lambda>i j. elems a i j + c)\<rparr>"

text \<open>\<^verbatim>\<open>a[i]\<close> of a two-axis array and \<^verbatim>\<open>a[i,:,k]\<close> of a three-axis array, as lists.\<close>

definition row2 :: "ndarray2 \<Rightarrow> nat \<Rightarrow> error + real list" where
  "row2 a i = (if i < nrows a then Inr (map (elems a i) [0..<ncols a]) else Inl IndexError)"

definition slice3 :: "ndarray3 \<Rightarrow> nat \<Rightarrow> nat \<Rightarrow> error + real list" where
  "slice3 a i k =
     (if i < dim0 a \<and> k < dim2 a then Inr (map (\<lambda>j. cells a i j k) [0..<dim1 a])
      else Inl IndexError)"

text \<open>\<^verbatim>\<open>a[i,j] += 1\<close>.\<close>

definition incr2 :: "ndarray2 \<Rightarrow> nat \<Rightarrow> nat \<Rightarrow> error + ndarray2" where
  "incr2 a i j = (if in2 a i j then Inr (set2 a i j (elems a i j + 1)) else Inl IndexError)"

text \<open>
  \<^verbatim>\<open>np.argmax\<close>: the index of the first occurrence of the maximum; it raises ValueError
  on an empty sequence. \<open>argmax_from xs i best bv\<close> scans \<open>xs\<close>, whose head has index
  \<open>i\<close>, with the best index and value so far.
\<close>

fun argmax_from :: "real list \<Rightarrow> nat \<Rightarrow> nat \<Rightarrow> real \<Rightarrow> nat" where
  "argmax_from [] i best bv = best"
| "argmax_from (x # xs) i best bv =
     (if bv < x then argmax_from xs (Suc i) i x else argmax_from xs (Suc i) best bv)"

definition np_argmax :: "real list \<Rightarrow> error + nat" where
  "np_argmax xs = (case xs of [] \<Rightarrow> Inl ValueError | x # rest \<Rightarrow> Inr (argmax_from rest 1 0 x))"

text \<open>numpy's float division.\<close>

definition np_divide :: "real \<Rightarrow> real \<Rightarrow> error + real" where
  "np_divide x y = (if y = 0 then Inl FloatDivideByZero else Inr (x / y))"

section \<open>The policy-iteration solver\<close>

text \<open>
  The part of the gym environment the solver reads: the numbers of states and actions and
  the transition table \<^verbatim>\<open>environment.P\<close>. The table is a dictionary of dictionaries:
  \<^verbatim>\<open>environment.P[state][action]\<close> is a list of tuples (probability, next state, reward,
  terminated), and the lookup of a state or of an action that the table does not hold
  raises KeyError. A policy is an array with a row of action probabilities per state; a
  value function is a list with one value per state.
\<close>

type_synonym transition = "real \<times> nat \<times> real \<times> bool"

record environment =
  nS :: nat
  nA :: nat
  P :: "nat \<rightharpoonup> (nat \<rightharpoonup> transition list)"

text \<open>The subscription \<^verbatim>\<open>environment.P[state][action]\<close>.\<close>

definition P_lookup :: "environment \<Rightarrow> nat \<Rightarrow> nat \<Rightarrow> error + transition list" where
  "P_lookup environment state action =
     (case P environment state of
        None \<Rightarrow> Inl KeyError
      | Some by_action \<Rightarrow>
          (case by_action action of
             None \<Rightarrow> Inl KeyError
           | Some transitions \<Rightarrow> Inr transitions))"

text \<open>
  \<^verbatim>\<open>policy_evaluation(policy, environment, discount_factor=1.0, theta=1e-9,
  max_iterations=1e9)\<close>. The three inner loops: over the outcomes of an action, over the
  actions of a state with their probabilities, and over the states, where the sweep
  writes each new value into \<open>V\<close> before it goes to the next state and keeps the largest
  change in \<open>delta\<close>. The actions are the indexes of the row \<^verbatim>\<open>policy[state]\<close>, whatever
  its width: the table is asked for each of them.
\<close>

fun outcome_sum :: "real \<Rightarrow> real \<Rightarrow> real list \<Rightarrow> transition list \<Rightarrow> real \<Rightarrow> error + real" where
  "outcome_sum action_probability discount_factor V [] v = Inr v"
| "outcome_sum action_probability discount_factor V
     ((state_probability, next_state, reward, terminated) # rest) v =
     (if next_state < length V then
        outcome_sum action_probability discount_factor V rest
          (v + action_probability * state_probability * (reward + discount_factor * V ! next_state))
      else Inl IndexError)"

fun action_sum ::
  "environment \<Rightarrow> real \<Rightarrow> real list \<Rightarrow> nat \<Rightarrow> (nat \<times> real) list \<Rightarrow> real \<Rightarrow> error + real" where
  "action_sum environment discount_factor V state [] v = Inr v"
| "action_sum environment discount_factor V state ((action, action_probability) # rest) v =
     (case P_lookup environment state action of
        Inl e \<Rightarrow> Inl e
      | Inr transitions \<Rightarrow>
          (case outcome_sum action_probability discount_factor V transitions v of
             Inl e \<Rightarrow> Inl e
           | Inr v' \<Rightarrow> action_sum environment discount_factor V state rest v'))"

fun sweep ::
  "ndarray2 \<Rightarrow> environment \<Rightarrow> real \<Rightarrow> nat list \<Rightarrow> real list \<Rightarrow> real \<Rightarrow> error + (real list \<times> real)" where
  "sweep policy environment discount_factor [] V delta = Inr (V, delta)"
| "sweep policy environment discount_factor (state # rest) V delta =
     (case row2 policy state of
        Inl e \<Rightarrow> Inl e
      | Inr probs \<Rightarrow>
          (case action_sum environment discount_factor V state (enumerate 0 probs) 0 of
             Inl e \<Rightarrow> Inl e
           | Inr v \<Rightarrow>
               if state < length V then
                 sweep policy environment discount_factor rest (V[state := v])
                   (max delta \<bar>V ! state - v\<bar>)
               else Inl IndexError))"

text \<open>
  The loop \<^verbatim>\<open>for i in range(int(max_iterations))\<close>: it returns \<open>V\<close> after the first sweep
  whose \<open>delta\<close> is below \<open>theta\<close>. When the range is exhausted the function ends without
  a \<^verbatim>\<open>return\<close>, so that it returns Python's \<open>None\<close>. \<^verbatim>\<open>int\<close> truncates towards
  zero and the range of a number below 1 is empty: the loop has
  \<open>nat \<lfloor>max_iterations\<rfloor>\<close> iterations. The counter of the sweeps is only printed and is
  left out, as is the printing.
\<close>

fun evaluation_loop ::
  "nat \<Rightarrow> ndarray2 \<Rightarrow> environment \<Rightarrow> real \<Rightarrow> real \<Rightarrow> real list \<Rightarrow> error + real list option" where
  "evaluation_loop 0 policy environment discount_factor theta V = Inr None"
| "evaluation_loop (Suc n) policy environment discount_factor theta V =
     (case sweep policy environment discount_factor [0..<nS environment] V 0 of
        Inl e \<Rightarrow> Inl e
      | Inr (V', delta) \<Rightarrow>
          if delta < theta then Inr (Some V')
          else evaluation_loop n policy environment discount_factor theta V')"

definition policy_evaluation ::
  "ndarray2 \<Rightarrow> environment \<Rightarrow> real \<Rightarrow> real \<Rightarrow> real \<Rightarrow> error + real list option" where
  "policy_evaluation policy environment discount_factor theta max_iterations =
     evaluation_loop (nat \<lfloor>max_iterations\<rfloor>) policy environment discount_factor theta
       (replicate (nS environment) 0)"

text \<open>
  \<^verbatim>\<open>one_step_lookahead(environment, state, V, discount_factor)\<close>. \<open>V\<close> is what
  \<^verbatim>\<open>policy_evaluation\<close> returned: subscripting \<open>None\<close> raises TypeError.
\<close>

fun lookahead_sum :: "real \<Rightarrow> real list option \<Rightarrow> transition list \<Rightarrow> real \<Rightarrow> error + real" where
  "lookahead_sum discount_factor V [] acc = Inr acc"
| "lookahead_sum discount_factor V ((probability, next_state, reward, terminated) # rest) acc =
     (case V of
        None \<Rightarrow> Inl TypeError
      | Some Vs \<Rightarrow>
          if next_state < length Vs then
            lookahead_sum discount_factor V rest
              (acc + probability * (reward + discount_factor * Vs ! next_state))
          else Inl IndexError)"

fun lookahead_actions ::
  "environment \<Rightarrow> nat \<Rightarrow> real list option \<Rightarrow> real \<Rightarrow> nat list \<Rightarrow> real list \<Rightarrow> error + real list" where
  "lookahead_actions environment state V discount_factor [] action_values = Inr action_values"
| "lookahead_actions environment state V discount_factor (action # rest) action_values =
     (case P_lookup environment state action of
        Inl e \<Rightarrow> Inl e
      | Inr transitions \<Rightarrow>
          (case lookahead_sum discount_factor V transitions (action_values ! action) of
             Inl e \<Rightarrow> Inl e
           | Inr x \<Rightarrow>
               lookahead_actions environment state V discount_factor rest
                 (action_values[action := x])))"

definition one_step_lookahead ::
  "environment \<Rightarrow> nat \<Rightarrow> real list option \<Rightarrow> real \<Rightarrow> error + real list" where
  "one_step_lookahead environment state V discount_factor =
     lookahead_actions environment state V discount_factor [0..<nA environment]
       (replicate (nA environment) 0)"


definition np_eye_row :: "nat \<Rightarrow> nat \<Rightarrow> nat \<Rightarrow> real" where
  "np_eye_row n k = (\<lambda>j. if j = k then 1 else 0)"

definition set_row2 :: "ndarray2 \<Rightarrow> nat \<Rightarrow> (nat \<Rightarrow> real) \<Rightarrow> ndarray2" where
  "set_row2 a i r = a\<lparr>elems := (\<lambda>i' j. if i' = i then r j else elems a i' j)\<rparr>"

fun improve ::
  "environment \<Rightarrow> real \<Rightarrow> real list option \<Rightarrow> nat list \<Rightarrow> ndarray2 \<Rightarrow> bool
     \<Rightarrow> error + (ndarray2 \<times> bool)" where
  "improve environment discount_factor V [] policy stable_policy = Inr (policy, stable_policy)"
| "improve environment discount_factor V (state # rest) policy stable_policy =
     (case row2 policy state of
        Inl e \<Rightarrow> Inl e
      | Inr probs \<Rightarrow>
          (case np_argmax probs of
             Inl e \<Rightarrow> Inl e
           | Inr current_action \<Rightarrow>
               (case one_step_lookahead environment state V discount_factor of
                  Inl e \<Rightarrow> Inl e
                | Inr action_value \<Rightarrow>
                    (case np_argmax action_value of
                       Inl e \<Rightarrow> Inl e
                     | Inr best_action \<Rightarrow>
                         if current_action \<noteq> best_action then
                           improve environment discount_factor V rest
                             (set_row2 policy state (np_eye_row (nA environment) best_action))
                             False
                         else
                           improve environment discount_factor V rest policy stable_policy))))"

fun iteration_loop ::
  "nat \<Rightarrow> environment \<Rightarrow> real \<Rightarrow> ndarray2 \<Rightarrow> error + (ndarray2 \<times> real list option) option" where
  "iteration_loop 0 environment discount_factor policy = Inr None"
| "iteration_loop (Suc n) environment discount_factor policy =
     (case policy_evaluation policy environment discount_factor (1 / 10 ^ 9) (10 ^ 9) of
        Inl e \<Rightarrow> Inl e
      | Inr V \<Rightarrow>
          (case improve environment discount_factor V [0..<nS environment] policy True of
             Inl e \<Rightarrow> Inl e
           | Inr (policy', stable_policy) \<Rightarrow>
               if stable_policy then Inr (Some (policy', V))
               else iteration_loop n environment discount_factor policy'))"


section \<open>Sweeps and rounds, counted\<close>



text \<open>
  A table is complete when it holds every state below \<open>nS\<close> and, for each of them, every
  action below \<open>nA\<close>.
\<close>

definition table_complete :: "environment \<Rightarrow> bool" where
  "table_complete environment =
     list_all
       (\<lambda>state. list_all (\<lambda>action. \<not> isl (P_lookup environment state action))
          [0..<nA environment])
       [0..<nS environment]"





section \<open>The Monte Carlo estimator\<close>

text \<open>
  The outside world of the estimator: the gym environment \<^verbatim>\<open>env\<close> and numpy's random
  generator, as functions on a state \<open>'w\<close>. \<open>env_reset\<close> is \<^verbatim>\<open>env.reset()\<close> (the code
  drops its result), \<open>env_step a\<close> is \<^verbatim>\<open>env.step(a)\<close> with its state, reward and done
  flag, \<open>random_choice a p\<close> is the element \<^verbatim>\<open>np.random.choice(a, p=p)\<close> draws and
  \<open>random_uniform lo hi\<close> is \<^verbatim>\<open>np.random.uniform(lo, hi)\<close>.
\<close>

record 'w runtime =
  env_reset :: "'w \<Rightarrow> 'w"
  env_step :: "nat \<Rightarrow> 'w \<Rightarrow> (nat \<times> real \<times> bool) \<times> 'w"
  random_choice :: "nat list \<Rightarrow> real list \<Rightarrow> 'w \<Rightarrow> nat \<times> 'w"
  random_uniform :: "real \<Rightarrow> real \<Rightarrow> 'w \<Rightarrow> real \<times> 'w"

text \<open>
  Modelled from the spec: \<^verbatim>\<open>one_iteration\<close> and \<^verbatim>\<open>tiny_epsilon_choice\<close> read the globals
  \<^verbatim>\<open>array_of_choices\<close> and \<^verbatim>\<open>random_policy_matrix\<close>, whose defining cell is not in the
  notebook. They are the four actions and the uniform distribution over them for each of
  the 16 states, as the locals of the same names in \<^verbatim>\<open>train_and_test\<close> are:
  \<^verbatim>\<open>np.array([0,1,2,3])\<close> and \<^verbatim>\<open>np.zeros((16,4)) + 0.25\<close>.
\<close>

definition array_of_choices :: "nat list" where
  "array_of_choices = [0, 1, 2, 3]"

definition random_policy_matrix :: ndarray2 where
  "random_policy_matrix = add_scalar2 (np_zeros2 16 4) 0.25"

text \<open>
  \<^verbatim>\<open>np.random.choice(a, p=p)\<close> raises ValueError when \<open>a\<close> and \<open>p\<close> differ in size;
  otherwise the generator draws.
\<close>

definition np_random_choice ::
  "'w runtime \<Rightarrow> nat list \<Rightarrow> real list \<Rightarrow> 'w \<Rightarrow> (error + nat) \<times> 'w" where
  "np_random_choice R a p w =
     (if length a \<noteq> length p then (Inl ValueError, w)
      else (case random_choice R a p w of (x, w') \<Rightarrow> (Inr x, w')))"

text \<open>
  \<^verbatim>\<open>tiny_epsilon_choice(sa_valmat, state, random_policy_matrix, epsilon, rubber='no')\<close>;
  the parameter \<^verbatim>\<open>rubber\<close> is not used.
\<close>

definition tiny_epsilon_choice ::
  "'w runtime \<Rightarrow> ndarray3 \<Rightarrow> nat \<Rightarrow> ndarray2 \<Rightarrow> real \<Rightarrow> 'w \<Rightarrow> (error + nat) \<times> 'w" where
  "tiny_epsilon_choice R sa_valmat state rpm epsilon w =
     (case random_uniform R 0 1 w of (random_shot, w1) \<Rightarrow>
        if random_shot \<ge> epsilon then
          (case slice3 sa_valmat state 0 of
             Inl e \<Rightarrow> (Inl e, w1)
           | Inr vs \<Rightarrow> (np_argmax vs, w1))
        else
          (case row2 rpm state of
             Inl e \<Rightarrow> (Inl e, w1)
           | Inr p \<Rightarrow> np_random_choice R array_of_choices p w1))"

text \<open>\<^verbatim>\<open>np.exp(v)**0.3 / np.sum(np.exp(v)**0.3)\<close>.\<close>

definition softmax_weights :: "real list \<Rightarrow> real list" where
  "softmax_weights vs =
     map (\<lambda>x. (exp x) powr 0.3 / sum_list (map (\<lambda>y. (exp y) powr 0.3) vs)) vs"

text \<open>
  The \<^verbatim>\<open>if\<close>/\<^verbatim>\<open>elif\<close> chain of \<^verbatim>\<open>one_iteration\<close> that binds \<^verbatim>\<open>action\<close>. It has no
  \<^verbatim>\<open>else\<close>: under any other policy name \<^verbatim>\<open>action\<close> stays unbound, and the next line,
  which reads it, raises UnboundLocalError.
\<close>

definition select_action ::
  "'w runtime \<Rightarrow> ndarray3 \<Rightarrow> string \<Rightarrow> real \<Rightarrow> nat \<Rightarrow> 'w \<Rightarrow> (error + nat) \<times> 'w" where
  "select_action R sa_valmat policy epsilon state w =
     (if policy = ''random'' then
        (case row2 random_policy_matrix state of
           Inl e \<Rightarrow> (Inl e, w)
         | Inr p \<Rightarrow> np_random_choice R array_of_choices p w)
      else if policy = ''tiny_epsilon'' then
        tiny_epsilon_choice R sa_valmat state random_policy_matrix epsilon w
      else if policy = ''softmax'' then
        (case slice3 sa_valmat state 0 of
           Inl e \<Rightarrow> (Inl e, w)
         | Inr vs \<Rightarrow> np_random_choice R array_of_choices (softmax_weights vs) w)
      else (Inl UnboundLocalError, w))"

text \<open>\<^verbatim>\<open>init_env\<close>: a fresh 16 x 4 occurrence matrix, the environment reset, and the
  locals \<^verbatim>\<open>done = False\<close>, \<^verbatim>\<open>state = 0\<close>, \<^verbatim>\<open>rew = 0\<close>.\<close>

definition init_env :: "'w runtime \<Rightarrow> 'w \<Rightarrow> (ndarray2 \<times> bool \<times> nat \<times> real) \<times> 'w" where
  "init_env R w = ((np_zeros2 16 4, False, 0, 0), env_reset R w)"

text \<open>
  The loop \<^verbatim>\<open>while done == False\<close> of \<^verbatim>\<open>one_iteration\<close>, with fuel for its
  iterations; it returns the occurrence matrix, \<^verbatim>\<open>rew\<close> and \<^verbatim>\<open>step_count\<close>.
\<close>

fun episode_loop ::
  "nat \<Rightarrow> 'w runtime \<Rightarrow> ndarray3 \<Rightarrow> string \<Rightarrow> real \<Rightarrow> ndarray2 \<Rightarrow> bool \<Rightarrow> nat \<Rightarrow> real \<Rightarrow> nat \<Rightarrow> 'w
     \<Rightarrow> (ndarray2 \<times> real \<times> nat) outcome \<times> 'w" where
  "episode_loop 0 R sa_valmat policy epsilon occ done state rew step_count w =
     (if done then (Returned (occ, rew, step_count), w) else (OutOfFuel, w))"
| "episode_loop (Suc fuel) R sa_valmat policy epsilon occ done state rew step_count w =
     (if done then (Returned (occ, rew, step_count), w)
      else
        (case select_action R sa_valmat policy epsilon state w of
           (Inl e, w1) \<Rightarrow> (Raised e, w1)
         | (Inr action, w1) \<Rightarrow>
             (case incr2 occ state action of
                Inl e \<Rightarrow> (Raised e, w1)
              | Inr occ' \<Rightarrow>
                  (case env_step R action w1 of
                     ((state', reward, done'), w2) \<Rightarrow>
                       episode_loop fuel R sa_valmat policy epsilon occ' done' state'
                         (max rew reward) (step_count + 1) w2))))"

text \<open>
  The body of the two \<^verbatim>\<open>for\<close> loops at the end of \<^verbatim>\<open>one_iteration\<close>, for one pair
  \<open>(i, j)\<close>: the count channel is incremented first, and the division reads the
  incremented count.
\<close>

definition update_cell :: "ndarray3 \<Rightarrow> ndarray2 \<Rightarrow> real \<Rightarrow> nat \<Rightarrow> nat \<Rightarrow> error + ndarray3" where
  "update_cell sa_valmat occ rew i j =
     (if \<not> in2 occ i j then Inl IndexError
      else if elems occ i j \<ge> 1 then
        (if \<not> in3 sa_valmat i j 1 then Inl IndexError
         else
           let sa1 = set3 sa_valmat i j 1 (cells sa_valmat i j 1 + elems occ i j) in
           (case np_divide (elems occ i j) (cells sa1 i j 1) of
              Inl e \<Rightarrow> Inl e
            | Inr q \<Rightarrow> Inr (set3 sa1 i j 0 (cells sa1 i j 0 + q * (rew - cells sa1 i j 0)))))
      else Inr sa_valmat)"

fun update_row :: "ndarray3 \<Rightarrow> ndarray2 \<Rightarrow> real \<Rightarrow> nat \<Rightarrow> nat list \<Rightarrow> error + ndarray3" where
  "update_row sa_valmat occ rew i [] = Inr sa_valmat"
| "update_row sa_valmat occ rew i (j # js) =
     (case update_cell sa_valmat occ rew i j of
        Inl e \<Rightarrow> Inl e
      | Inr sa' \<Rightarrow> update_row sa' occ rew i js)"

fun update_rows :: "ndarray3 \<Rightarrow> ndarray2 \<Rightarrow> real \<Rightarrow> nat list \<Rightarrow> error + ndarray3" where
  "update_rows sa_valmat occ rew [] = Inr sa_valmat"
| "update_rows sa_valmat occ rew (i # is) =
     (case update_row sa_valmat occ rew i [0..<dim1 sa_valmat] of
        Inl e \<Rightarrow> Inl e
      | Inr sa' \<Rightarrow> update_rows sa' occ rew is)"

definition update_valmat :: "ndarray3 \<Rightarrow> ndarray2 \<Rightarrow> real \<Rightarrow> error + ndarray3" where
  "update_valmat sa_valmat occ rew = update_rows sa_valmat occ rew [0..<dim0 sa_valmat]"

text \<open>
  \<^verbatim>\<open>one_iteration(sa_valmat, policy='random', epsilon=0.1)\<close>: one episode and the update
  of the matrix, returning \<^verbatim>\<open>(sa_valmat, rew, step_count)\<close>. The code updates the
  caller's array in place and returns it; the model returns the updated array.
\<close>

definition one_iteration ::
  "'w runtime \<Rightarrow> nat \<Rightarrow> ndarray3 \<Rightarrow> string \<Rightarrow> real \<Rightarrow> 'w \<Rightarrow> (ndarray3 \<times> real \<times> nat) outcome \<times> 'w" where
  "one_iteration R fuel sa_valmat policy epsilon w =
     (case init_env R w of
        ((occ, done, state, rew), w0) \<Rightarrow>
          (case episode_loop fuel R sa_valmat policy epsilon occ done state rew 0 w0 of
             (Raised e, w1) \<Rightarrow> (Raised e, w1)
           | (OutOfFuel, w1) \<Rightarrow> (OutOfFuel, w1)
           | (Returned (occ', rew', step_count), w1) \<Rightarrow>
               (case update_valmat sa_valmat occ' rew' of
                  Inl e \<Rightarrow> (Raised e, w1)
                | Inr sa' \<Rightarrow> (Returned (sa', rew', step_count), w1))))"

text \<open>
  The start of \<^verbatim>\<open>train_and_test\<close>: \<^verbatim>\<open>sa_valmat = np.zeros((16,4,2))\<close> and
  \<^verbatim>\<open>sa_valmat[:,:,0] += 0.01\<close>. Channel 0 holds the running average, channel 1 the
  visit count. \<open>add_channel a k c\<close> is \<^verbatim>\<open>a[:,:,k] += c\<close> for a channel \<open>k\<close> of \<open>a\<close>.
\<close>

definition add_channel :: "ndarray3 \<Rightarrow> nat \<Rightarrow> real \<Rightarrow> ndarray3" where
  "add_channel a k c =
     a\<lparr>cells := (\<lambda>i j k'. if k' = k then cells a i j k' + c else cells a i j k')\<rparr>"

definition initial_sa_valmat :: ndarray3 where
  "initial_sa_valmat = add_channel (np_zeros3 16 4 2) 0 0.01"

text \<open>
  \<^verbatim>\<open>train_and_test(policy, train_epochs, test_epochs)\<close>. The epsilon of the training
  episode \<open>i\<close> is \<^verbatim>\<open>0.5 - (np.exp(i/train_epochs)/(1+np.exp(i/train_epochs)))/2\<close>.
\<close>

definition epsilon_schedule :: "nat \<Rightarrow> nat \<Rightarrow> real" where
  "epsilon_schedule i train_epochs =
     0.5 - (exp (real i / real train_epochs) / (1 + exp (real i / real train_epochs))) / 2"

text \<open>
  The three loops of \<^verbatim>\<open>train_and_test\<close>: ten episodes under the random policy, the
  training episodes, and the test episodes. The local \<^verbatim>\<open>wins\<close>, to which the test loop
  adds the reward of the episode, is bound nowhere in the function, and neither is
  \<^verbatim>\<open>logging_test_step_count\<close>: a local is \<open>None\<close> while it is unbound, and reading it
  then raises UnboundLocalError.
\<close>

fun warm_up_loop ::
  "nat \<Rightarrow> 'w runtime \<Rightarrow> nat \<Rightarrow> ndarray3 \<Rightarrow> real \<Rightarrow> 'w \<Rightarrow> (ndarray3 \<times> real) outcome \<times> 'w" where
  "warm_up_loop 0 R fuel sa_valmat train_wins w = (Returned (sa_valmat, train_wins), w)"
| "warm_up_loop (Suc k) R fuel sa_valmat train_wins w =
     (case one_iteration R fuel sa_valmat ''random'' 0.1 w of
        (Returned (sa', rew, _), w') \<Rightarrow> warm_up_loop k R fuel sa' (train_wins + rew) w'
      | (Raised e, w') \<Rightarrow> (Raised e, w')
      | (OutOfFuel, w') \<Rightarrow> (OutOfFuel, w'))"

fun train_loop ::
  "nat list \<Rightarrow> 'w runtime \<Rightarrow> nat \<Rightarrow> string \<Rightarrow> nat \<Rightarrow> ndarray3 \<Rightarrow> real \<Rightarrow> 'w
     \<Rightarrow> (ndarray3 \<times> real) outcome \<times> 'w" where
  "train_loop [] R fuel policy train_epochs sa_valmat train_wins w =
     (Returned (sa_valmat, train_wins), w)"
| "train_loop (i # is) R fuel policy train_epochs sa_valmat train_wins w =
     (case one_iteration R fuel sa_valmat policy (epsilon_schedule i train_epochs) w of
        (Returned (sa', rew, step_count), w') \<Rightarrow>
          train_loop is R fuel policy train_epochs sa' (train_wins + rew) w'
      | (Raised e, w') \<Rightarrow> (Raised e, w')
      | (OutOfFuel, w') \<Rightarrow> (OutOfFuel, w'))"

fun test_loop ::
  "nat list \<Rightarrow> 'w runtime \<Rightarrow> nat \<Rightarrow> ndarray3 \<Rightarrow> real option \<Rightarrow> nat option \<Rightarrow> 'w
     \<Rightarrow> (ndarray3 \<times> real option \<times> nat option) outcome \<times> 'w" where
  "test_loop [] R fuel sa_valmat wins logging_test_step_count w =
     (Returned (sa_valmat, wins, logging_test_step_count), w)"
| "test_loop (i # is) R fuel sa_valmat wins logging_test_step_count w =
     (case one_iteration R fuel sa_valmat ''tiny_epsilon'' 0 w of
        (Returned (sa', rew_pol, step_count), w') \<Rightarrow>
          (case wins of
             None \<Rightarrow> (Raised UnboundLocalError, w')
           | Some x \<Rightarrow>
               (case logging_test_step_count of
                  None \<Rightarrow> (Raised UnboundLocalError, w')
                | Some l \<Rightarrow>
                    test_loop is R fuel sa' (Some (x + rew_pol)) (Some (l + step_count)) w'))
      | (Raised e, w') \<Rightarrow> (Raised e, w')
      | (OutOfFuel, w') \<Rightarrow> (OutOfFuel, w'))"

text \<open>
  The return statement,
  \<^verbatim>\<open>return test_win, test_wins/test_epochs, train_wins, train_wins/train_epochs\<close>. The
  name \<^verbatim>\<open>test_win\<close> is no local of the function: Python looks it up among the globals
  of the notebook, which define none (\<open>None\<close>, a NameError); the model takes the global as
  a parameter. A division of Python numbers by zero raises ZeroDivisionError.
\<close>

definition return_tuple ::
  "real option \<Rightarrow> real \<Rightarrow> nat \<Rightarrow> real \<Rightarrow> nat \<Rightarrow> error + (real \<times> real \<times> real \<times> real)" where
  "return_tuple test_win test_wins test_epochs train_wins train_epochs =
     (case test_win of
        None \<Rightarrow> Inl NameError
      | Some t \<Rightarrow>
          if test_epochs = 0 then Inl ZeroDivisionError
          else if train_epochs = 0 then Inl ZeroDivisionError
          else Inr (t, test_wins / real test_epochs, train_wins, train_wins / real train_epochs))"

definition train_and_test ::
  "'w runtime \<Rightarrow> nat \<Rightarrow> real option \<Rightarrow> string \<Rightarrow> nat \<Rightarrow> nat \<Rightarrow> 'w
     \<Rightarrow> (real \<times> real \<times> real \<times> real) outcome \<times> 'w" where
  "train_and_test R fuel test_win policy train_epochs test_epochs w =
     (let sa_valmat = initial_sa_valmat; train_wins = 0; test_wins = 0 in
      case warm_up_loop 10 R fuel sa_valmat train_wins w of
        (Raised e, w1) \<Rightarrow> (Raised e, w1)
      | (OutOfFuel, w1) \<Rightarrow> (OutOfFuel, w1)
      | (Returned (sa1, train_wins1), w1) \<Rightarrow>
          (case train_loop [0..<train_epochs] R fuel policy train_epochs sa1 train_wins1 w1 of
             (Raised e, w2) \<Rightarrow> (Raised e, w2)
           | (OutOfFuel, w2) \<Rightarrow> (OutOfFuel, w2)
           | (Returned (sa2, train_wins2), w2) \<Rightarrow>
               (case test_loop [0..<test_epochs] R fuel sa2 None None w2 of
                  (Raised e, w3) \<Rightarrow> (Raised e, w3)
                | (OutOfFuel, w3) \<Rightarrow> (OutOfFuel, w3)
                | (Returned (sa3, wins, logging_test_step_count), w3) \<Rightarrow>
                    (case return_tuple test_win test_wins test_epochs train_wins2 train_epochs of
                       Inl e \<Rightarrow> (Raised e, w3)
                     | Inr r \<Rightarrow> (Returned r, w3)))))"

section \<open>The schedule of a training run, in the words of the specification\<close>

text \<open>
  The specification describes a training run as a sequence of episodes: a warm-up of 10
  episodes under the random policy, then the training episodes under the chosen policy
  with a decaying epsilon. \<open>run_episodes\<close> runs the episodes of such a schedule in
  order, each on the matrix the one before returned, and adds up their rewards.
\<close>

definition spec_schedule :: "string \<Rightarrow> nat \<Rightarrow> (string \<times> real) list" where
  "spec_schedule policy train_episode_count =
     replicate 10 (''random'', 0.1)
       @ map (\<lambda>i. (policy, epsilon_schedule i train_episode_count)) [0..<train_episode_count]"

fun run_episodes ::
  "(string \<times> real) list \<Rightarrow> 'w runtime \<Rightarrow> nat \<Rightarrow> ndarray3 \<Rightarrow> real \<Rightarrow> 'w
     \<Rightarrow> (ndarray3 \<times> real) outcome \<times> 'w" where
  "run_episodes [] R fuel sa win_count w = (Returned (sa, win_count), w)"
| "run_episodes ((policy, epsilon) # rest) R fuel sa win_count w =
     (case one_iteration R fuel sa policy epsilon w of
        (Returned (sa', rew, n), w') \<Rightarrow> run_episodes rest R fuel sa' (win_count + rew) w'
      | (Raised e, w') \<Rightarrow> (Raised e, w')
      | (OutOfFuel, w') \<Rightarrow> (OutOfFuel, w'))"

section \<open>What an episode visits\<close>

text \<open>
  The triples (state, action, reward) of the iterations of the loop of \<^verbatim>\<open>one_iteration\<close>,
  in order: the pair the iteration counts in the occurrence matrix and the reward
  \<^verbatim>\<open>env.step\<close> gives it. The claims speak of the pairs an episode visits and the rewards
  it observes; this is their definition.
\<close>

fun episode_trace ::
  "nat \<Rightarrow> 'w runtime \<Rightarrow> ndarray3 \<Rightarrow> string \<Rightarrow> real \<Rightarrow> bool \<Rightarrow> nat \<Rightarrow> 'w \<Rightarrow> (nat \<times> nat \<times> real) list" where
  "episode_trace 0 R sa_valmat policy epsilon done state w = []"
| "episode_trace (Suc fuel) R sa_valmat policy epsilon done state w =
     (if done then []
      else
        (case select_action R sa_valmat policy epsilon state w of
           (Inl e, w1) \<Rightarrow> []
         | (Inr action, w1) \<Rightarrow>
             (case env_step R action w1 of
                ((state', reward, done'), w2) \<Rightarrow>
                  (state, action, reward)
                    # episode_trace fuel R sa_valmat policy epsilon done' state' w2)))"

definition one_iteration_trace ::
  "'w runtime \<Rightarrow> nat \<Rightarrow> ndarray3 \<Rightarrow> string \<Rightarrow> real \<Rightarrow> 'w \<Rightarrow> (nat \<times> nat \<times> real) list" where
  "one_iteration_trace R fuel sa_valmat policy epsilon w =
     episode_trace fuel R sa_valmat policy epsilon False 0 (env_reset R w)"

text \<open>How often a trace visits the pair \<open>(i, j)\<close>: its within-episode occurrence count.\<close>

definition visits :: "(nat \<times> nat \<times> real) list \<Rightarrow> nat \<Rightarrow> nat \<Rightarrow> nat" where
  "visits tr i j = count_list (map (\<lambda>(s, a, r). (s, a)) tr) (i, j)"

text \<open>
  The value the update stores in channel \<open>k\<close> of a pair with at least one occurrence.
\<close>

definition new_cell :: "ndarray3 \<Rightarrow> ndarray2 \<Rightarrow> real \<Rightarrow> nat \<Rightarrow> nat \<Rightarrow> nat \<Rightarrow> real" where
  "new_cell sa occ rew i j k =
     (if k = 1 then cells sa i j 1 + elems occ i j
      else if k = 0 then
        cells sa i j 0 + (elems occ i j / (cells sa i j 1 + elems occ i j)) * (rew - cells sa i j 0)
      else cells sa i j k)"

text \<open>
  The matrices a training run can hold: the initial one, and every matrix
  \<^verbatim>\<open>one_iteration\<close> returns from one of them.
\<close>

inductive reachable_valmat :: "'w runtime \<Rightarrow> ndarray3 \<Rightarrow> bool" for R :: "'w runtime" where
  initial: "reachable_valmat R initial_sa_valmat"
| episode: "reachable_valmat R sa \<Longrightarrow>
     one_iteration R fuel sa policy eps w = (Returned (sa', rew, n), w') \<Longrightarrow>
     reachable_valmat R sa'"

section \<open>A ring world\<close>

text \<open>
  A world to run the estimator in: four states on a ring and four actions; action 0 steps
  back, action 1 steps forward, actions 2 and 3 stay. Every transition has reward 0 but
  reaching state 3, which has reward 1 and ends the episode. The world's state is the
  environment's state and the number of random draws so far; the generator chooses
  action 2 at its first two draws and action 0 afterwards, and its uniform draw is the
  lower bound.
\<close>

definition ring_world :: "(nat \<times> nat) runtime" where
  "ring_world =
     \<lparr>env_reset = (\<lambda>(s, k). (0, k)),
      env_step = (\<lambda>a (s, k).
         let s' = (if a = 0 then (s + 3) mod 4 else if a = 1 then (s + 1) mod 4 else s)
         in ((s', if s' = 3 then 1 else 0, s' = 3), (s', k))),
      random_choice = (\<lambda>a p (s, k). (a ! (if k < 2 then 2 else 0), (s, Suc k))),
      random_uniform = (\<lambda>lo hi (s, k). (lo, (s, Suc k)))\<rparr>"

text \<open>
  A world that keeps a log of the calls it receives; its episodes end at their first step
  with reward 1.
\<close>

definition logging_world :: "string list runtime" where
  "logging_world =
     \<lparr>env_reset = (\<lambda>log. log @ [''reset'']),
      env_step = (\<lambda>a log. ((0, 1, True), log @ [''step''])),
      random_choice = (\<lambda>a p log. (hd a, log @ [''choice''])),
      random_uniform = (\<lambda>lo hi log. (lo, log @ [''uniform'']))\<rparr>"

section \<open>An environment on the edge of the threshold\<close>

text \<open>
  Two states and two actions. In state 0, action 0 ends the episode in state 1 with
  reward \<open>1 - 1 / 2 ^ 51\<close>, and action 1 stays in state 0 with reward \<open>1 - 1 / 1024\<close>;
  state 1 is terminal, with reward 0. Every transition has probability 1.
  \<open>stay_policy\<close> and \<open>leave_policy\<close> take action 1, respectively action 0, in state 0.
  \<open>wide_policy\<close> has three action probabilities in each row, one more than the table
  has actions.
\<close>

definition edge_env :: environment where
  "edge_env =
     \<lparr>nS = 2, nA = 2,
      P = [0 \<mapsto> [0 \<mapsto> [(1, 1, 1 - 1 / 2 ^ 51, True)], 1 \<mapsto> [(1, 0, 1 - 1 / 1024, False)]],
           1 \<mapsto> [0 \<mapsto> [(1, 1, 0, True)], 1 \<mapsto> [(1, 1, 0, True)]]]\<rparr>"





section \<open>The episode loop and the update of the matrix\<close>

lemma visits_Nil [simp]: "visits [] i j = 0"
  by (simp add: visits_def)

lemma visits_Cons [simp]:
  "visits ((s, a, r) # tr) i j = (if s = i \<and> a = j then Suc (visits tr i j) else visits tr i j)"
  by (auto simp: visits_def)

lemma incr2_Inr:
  "incr2 occ s a = Inr occ' \<Longrightarrow>
     in2 occ s a \<and> nrows occ' = nrows occ \<and> ncols occ' = ncols occ \<and>
     (\<forall>i j. elems occ' i j = (if i = s \<and> j = a then elems occ i j + 1 else elems occ i j))"
  by (auto simp: incr2_def set2_def split: if_splits)

lemma episode_loop_Returned:
  "episode_loop fuel R sa policy eps occ d state rew sc w = (Returned (occ', rew', sc'), w') \<Longrightarrow>
     nrows occ' = nrows occ \<and> ncols occ' = ncols occ \<and>
     (\<forall>i j. elems occ' i j = elems occ i j + real (visits (episode_trace fuel R sa policy eps d state w) i j)) \<and>
     rew' = fold max (map (\<lambda>(s, a, r). r) (episode_trace fuel R sa policy eps d state w)) rew \<and>
     sc' = sc + length (episode_trace fuel R sa policy eps d state w) \<and>
     (\<forall>(s, a, r) \<in> set (episode_trace fuel R sa policy eps d state w). s < nrows occ \<and> a < ncols occ)"
proof (induction fuel arbitrary: occ d state rew sc w)
  case 0
  then show ?case by (auto split: if_splits)
next
  case (Suc fuel)
  show ?case
  proof (cases d)
    case True
    with Suc.prems show ?thesis by auto
  next
    case False
    from Suc.prems False obtain action w1 occ1 state1 reward d1 w2 where
      sel: "select_action R sa policy eps state w = (Inr action, w1)" and
      inc: "incr2 occ state action = Inr occ1" and
      stp: "env_step R action w1 = ((state1, reward, d1), w2)" and
      rec: "episode_loop fuel R sa policy eps occ1 d1 state1 (max rew reward) (sc + 1) w2 = (Returned (occ', rew', sc'), w')"
      by (auto split: prod.splits sum.splits)
    note ih = Suc.IH [OF rec]
    note i2 = incr2_Inr [OF inc]
    have tr: "episode_trace (Suc fuel) R sa policy eps d state w =
        (state, action, reward) # episode_trace fuel R sa policy eps d1 state1 w2"
      using False sel stp by simp
    show ?thesis
      unfolding tr using ih i2 by (auto simp: in2_def max.commute)
  qed
qed

lemma update_cell_Inr:
  assumes "update_cell sa occ rew i j = Inr sa'"
  shows "dim0 sa' = dim0 sa \<and> dim1 sa' = dim1 sa \<and> dim2 sa' = dim2 sa \<and>
         (\<forall>i' j' k. cells sa' i' j' k =
            (if i' = i \<and> j' = j \<and> elems occ i j \<ge> 1 then new_cell sa occ rew i j k
             else cells sa i' j' k))"
  using assms
  by (auto simp: update_cell_def set3_def np_divide_def new_cell_def Let_def
           split: if_splits sum.splits)

lemma update_row_Inr:
  assumes "update_row sa occ rew i js = Inr sa'" "distinct js"
  shows "dim0 sa' = dim0 sa \<and> dim1 sa' = dim1 sa \<and> dim2 sa' = dim2 sa \<and>
         (\<forall>i' j' k. cells sa' i' j' k =
            (if i' = i \<and> j' \<in> set js \<and> elems occ i j' \<ge> 1 then new_cell sa occ rew i j' k
             else cells sa i' j' k))"
  using assms
proof (induction js arbitrary: sa)
  case Nil
  then show ?case by simp
next
  case (Cons j js)
  from Cons.prems obtain sa1 where
    c: "update_cell sa occ rew i j = Inr sa1" and r: "update_row sa1 occ rew i js = Inr sa'"
    by (auto split: sum.splits)
  from Cons.prems have d: "distinct js" "j \<notin> set js" by auto
  note h1 = update_cell_Inr [OF c]
  note h2 = Cons.IH [OF r d(1)]
  have nc: "\<And>j' k. j' \<in> set js \<Longrightarrow> new_cell sa1 occ rew i j' k = new_cell sa occ rew i j' k"
    using h1 d(2) by (auto simp: new_cell_def)
  show ?case
    using h1 h2 d(2) nc by auto
qed

lemma update_rows_Inr:
  assumes "update_rows sa occ rew is = Inr sa'" "distinct is"
  shows "dim0 sa' = dim0 sa \<and> dim1 sa' = dim1 sa \<and> dim2 sa' = dim2 sa \<and>
         (\<forall>i' j' k. cells sa' i' j' k =
            (if i' \<in> set is \<and> j' < dim1 sa \<and> elems occ i' j' \<ge> 1 then new_cell sa occ rew i' j' k
             else cells sa i' j' k))"
  using assms
proof (induction "is" arbitrary: sa)
  case Nil
  then show ?case by simp
next
  case (Cons i "is")
  from Cons.prems obtain sa1 where
    c: "update_row sa occ rew i [0..<dim1 sa] = Inr sa1" and r: "update_rows sa1 occ rew is = Inr sa'"
    by (auto split: sum.splits)
  from Cons.prems have d: "distinct is" "i \<notin> set is" by auto
  have h1: "dim0 sa1 = dim0 sa \<and> dim1 sa1 = dim1 sa \<and> dim2 sa1 = dim2 sa \<and>
         (\<forall>i' j' k. cells sa1 i' j' k =
            (if i' = i \<and> j' \<in> set [0..<dim1 sa] \<and> elems occ i j' \<ge> 1 then new_cell sa occ rew i j' k
             else cells sa i' j' k))"
    using update_row_Inr [OF c] by simp
  note h2 = Cons.IH [OF r d(1)]
  have nc: "\<And>i' j' k. i' \<in> set is \<Longrightarrow> new_cell sa1 occ rew i' j' k = new_cell sa occ rew i' j' k"
    using h1 d(2) by (auto simp: new_cell_def)
  show ?case
    using h1 h2 d(2) nc by auto
qed

lemma update_valmat_Inr:
  assumes "update_valmat sa occ rew = Inr sa'"
  shows "dim0 sa' = dim0 sa \<and> dim1 sa' = dim1 sa \<and> dim2 sa' = dim2 sa \<and>
         (\<forall>i j k. cells sa' i j k =
            (if i < dim0 sa \<and> j < dim1 sa \<and> elems occ i j \<ge> 1 then new_cell sa occ rew i j k
             else cells sa i j k))"
  using update_rows_Inr [of sa occ rew "[0..<dim0 sa]" sa'] assms
  by (simp add: update_valmat_def)

lemma one_iteration_Returned:
  assumes "one_iteration R fuel sa policy eps w = (Returned (sa', rew, n), w')"
  shows "\<exists>occ. (\<forall>i j. elems occ i j = real (visits (one_iteration_trace R fuel sa policy eps w) i j)) \<and>
           nrows occ = 16 \<and> ncols occ = 4 \<and>
           update_valmat sa occ rew = Inr sa' \<and>
           rew = fold max (map (\<lambda>(s, a, r). r) (one_iteration_trace R fuel sa policy eps w)) 0 \<and>
           n = length (one_iteration_trace R fuel sa policy eps w) \<and>
           (\<forall>(s, a, r) \<in> set (one_iteration_trace R fuel sa policy eps w). s < 16 \<and> a < 4)"
proof -
  from assms obtain occ where
    l: "episode_loop fuel R sa policy eps (np_zeros2 16 4) False 0 0 0 (env_reset R w) = (Returned (occ, rew, n), w')"
    and u: "update_valmat sa occ rew = Inr sa'"
    by (auto simp: one_iteration_def init_env_def split: prod.splits outcome.splits sum.splits)
  from episode_loop_Returned [OF l] u show ?thesis
    by (intro exI [of _ occ]) (simp add: one_iteration_trace_def np_zeros2_def)
qed

lemma update_cell_no_zero_division:
  assumes "0 \<le> cells sa i j 1"
  shows "update_cell sa occ rew i j \<noteq> Inl FloatDivideByZero"
  using assms by (auto simp: update_cell_def np_divide_def set3_def Let_def)

lemma update_cell_counts_nonneg:
  assumes "update_cell sa occ rew i j = Inr sa'" "\<forall>i j. 0 \<le> cells sa i j 1"
  shows "\<forall>i j. 0 \<le> cells sa' i j 1"
proof (intro allI)
  fix i' j'
  from update_cell_Inr [OF assms(1)] have
    "cells sa' i' j' 1 = (if i' = i \<and> j' = j \<and> elems occ i j \<ge> 1 then new_cell sa occ rew i j 1 else cells sa i' j' 1)"
    by blast
  moreover have "0 \<le> cells sa i j 1" "0 \<le> cells sa i' j' 1" using assms(2) by auto
  ultimately show "0 \<le> cells sa' i' j' 1"
    by (auto simp: new_cell_def)
qed

lemma update_row_no_zero_division:
  assumes "\<forall>i j. 0 \<le> cells sa i j 1"
  shows "update_row sa occ rew i js \<noteq> Inl FloatDivideByZero"
  using assms
proof (induction js arbitrary: sa)
  case Nil
  then show ?case by simp
next
  case (Cons j js)
  show ?case
  proof (cases "update_cell sa occ rew i j")
    case (Inl e)
    with update_cell_no_zero_division [of sa i j occ rew] Cons.prems show ?thesis by auto
  next
    case (Inr sa1)
    from update_cell_counts_nonneg [OF Inr Cons.prems] Cons.IH [of sa1] Inr show ?thesis by simp
  qed
qed

lemma update_row_counts_nonneg:
  assumes "update_row sa occ rew i js = Inr sa'" "\<forall>i j. 0 \<le> cells sa i j 1"
  shows "\<forall>i j. 0 \<le> cells sa' i j 1"
  using assms
proof (induction js arbitrary: sa)
  case Nil
  then show ?case by simp
next
  case (Cons j js)
  from Cons.prems(1) obtain sa1 where
    c: "update_cell sa occ rew i j = Inr sa1" and r: "update_row sa1 occ rew i js = Inr sa'"
    by (auto split: sum.splits)
  from Cons.IH [OF r update_cell_counts_nonneg [OF c Cons.prems(2)]] show ?case .
qed

lemma update_rows_no_zero_division:
  assumes "\<forall>i j. 0 \<le> cells sa i j 1"
  shows "update_rows sa occ rew is \<noteq> Inl FloatDivideByZero"
  using assms
proof (induction "is" arbitrary: sa)
  case Nil
  then show ?case by simp
next
  case (Cons i "is")
  show ?case
  proof (cases "update_row sa occ rew i [0..<dim1 sa]")
    case (Inl e)
    with update_row_no_zero_division [OF Cons.prems, of occ rew i "[0..<dim1 sa]"] show ?thesis by auto
  next
    case (Inr sa1)
    from update_row_counts_nonneg [OF Inr Cons.prems] Cons.IH [of sa1] Inr show ?thesis by simp
  qed
qed

lemma select_action_errors:
  "select_action R sa policy eps state w = (Inl e, w') \<Longrightarrow> e \<in> {IndexError, ValueError, UnboundLocalError}"
  by (auto simp: select_action_def tiny_epsilon_choice_def np_random_choice_def row2_def slice3_def np_argmax_def
      split: if_splits sum.splits prod.splits list.splits)

lemma episode_loop_no_zero_division:
  "fst (episode_loop fuel R sa policy eps occ d state rew sc w) \<noteq> Raised FloatDivideByZero"
proof (induction fuel arbitrary: occ d state rew sc w)
  case 0
  then show ?case by simp
next
  case (Suc fuel)
  show ?case
  proof (cases d)
    case True
    then show ?thesis by simp
  next
    case False
    obtain r w1 where sel: "select_action R sa policy eps state w = (r, w1)" by (cases "select_action R sa policy eps state w")
    show ?thesis
    proof (cases r)
      case (Inl e)
      with select_action_errors [of R sa policy eps state w e w1] sel False show ?thesis by auto
    next
      case (Inr action)
      show ?thesis
      proof (cases "incr2 occ state action")
        case (Inl e)
        then have "e = IndexError" by (auto simp: incr2_def split: if_splits)
        with Inl Inr sel False show ?thesis by simp
      next
        case (Inr occ1)
        obtain state1 reward d1 w2 where stp: "env_step R action w1 = ((state1, reward, d1), w2)"
          by (metis prod.exhaust)
        from Suc.IH [of occ1 d1 state1 "max rew reward" "sc + 1" w2] sel \<open>r = Inr action\<close> Inr stp False
        show ?thesis by simp
      qed
    qed
  qed
qed

lemma one_iteration_no_zero_division:
  assumes "\<forall>i j. 0 \<le> cells sa i j 1"
  shows "fst (one_iteration R fuel sa policy eps w) \<noteq> Raised FloatDivideByZero"
proof -
  obtain r w1 where l: "episode_loop fuel R sa policy eps (np_zeros2 16 4) False 0 0 0 (env_reset R w) = (r, w1)"
    by (cases "episode_loop fuel R sa policy eps (np_zeros2 16 4) False 0 0 0 (env_reset R w)")
  show ?thesis
  proof (cases r)
    case (Returned x)
    obtain occ rew n where x: "x = (occ, rew, n)" by (cases x)
    from update_rows_no_zero_division [OF assms, of occ rew "[0..<dim0 sa]"]
    show ?thesis
      using l Returned x
      by (auto simp: one_iteration_def init_env_def update_valmat_def split: sum.splits)
  next
    case (Raised e)
    from episode_loop_no_zero_division [of fuel R sa policy eps "np_zeros2 16 4" False 0 0 0 "env_reset R w"] l Raised
    show ?thesis by (simp add: one_iteration_def init_env_def)
  next
    case OutOfFuel
    with l show ?thesis by (simp add: one_iteration_def init_env_def)
  qed
qed

lemma update_cell_succeeds:
  assumes "i < nrows occ" "j < ncols occ" "i < dim0 sa" "j < dim1 sa" "2 \<le> dim2 sa"
     "1 \<le> elems occ i j \<longrightarrow> cells sa i j 1 + elems occ i j \<noteq> 0"
  shows "\<exists>sa'. update_cell sa occ rew i j = Inr sa'"
  using assms by (auto simp: update_cell_def in2_def in3_def np_divide_def set3_def Let_def)

lemma update_row_succeeds:
  assumes "i < nrows occ" "i < dim0 sa" "2 \<le> dim2 sa" "distinct js"
     "\<forall>j \<in> set js. j < ncols occ \<and> j < dim1 sa \<and> (1 \<le> elems occ i j \<longrightarrow> cells sa i j 1 + elems occ i j \<noteq> 0)"
  shows "\<exists>sa'. update_row sa occ rew i js = Inr sa'"
  using assms
proof (induction js arbitrary: sa)
  case Nil
  then show ?case by simp
next
  case (Cons j js)
  from Cons.prems have "\<exists>sa1. update_cell sa occ rew i j = Inr sa1"
    by (intro update_cell_succeeds) auto
  then obtain sa1 where c: "update_cell sa occ rew i j = Inr sa1" ..
  note h = update_cell_Inr [OF c]
  have "\<exists>sa'. update_row sa1 occ rew i js = Inr sa'"
  proof (rule Cons.IH)
    show "i < nrows occ" by fact
    show "i < dim0 sa1" using h Cons.prems by simp
    show "2 \<le> dim2 sa1" using h Cons.prems by simp
    show "distinct js" using Cons.prems by simp
    show "\<forall>j \<in> set js. j < ncols occ \<and> j < dim1 sa1 \<and> (1 \<le> elems occ i j \<longrightarrow> cells sa1 i j 1 + elems occ i j \<noteq> 0)"
      using h Cons.prems by auto
  qed
  with c show ?case by simp
qed

lemma update_rows_succeeds:
  assumes "2 \<le> dim2 sa" "distinct is" "dim1 sa \<le> ncols occ"
     "\<forall>i \<in> set is. i < nrows occ \<and> i < dim0 sa \<and>
         (\<forall>j < dim1 sa. 1 \<le> elems occ i j \<longrightarrow> cells sa i j 1 + elems occ i j \<noteq> 0)"
  shows "\<exists>sa'. update_rows sa occ rew is = Inr sa'"
  using assms
proof (induction "is" arbitrary: sa)
  case Nil
  then show ?case by simp
next
  case (Cons i "is")
  have "\<exists>sa1. update_row sa occ rew i [0..<dim1 sa] = Inr sa1"
    using Cons.prems by (intro update_row_succeeds) auto
  then obtain sa1 where c: "update_row sa occ rew i [0..<dim1 sa] = Inr sa1" ..
  have h: "dim0 sa1 = dim0 sa \<and> dim1 sa1 = dim1 sa \<and> dim2 sa1 = dim2 sa \<and>
         (\<forall>i' j' k. cells sa1 i' j' k =
            (if i' = i \<and> j' \<in> set [0..<dim1 sa] \<and> elems occ i j' \<ge> 1 then new_cell sa occ rew i j' k
             else cells sa i' j' k))"
    using update_row_Inr [OF c] by simp
  have "\<exists>sa'. update_rows sa1 occ rew is = Inr sa'"
  proof (rule Cons.IH)
    show "2 \<le> dim2 sa1" using h Cons.prems by simp
    show "distinct is" using Cons.prems by simp
    show "dim1 sa1 \<le> ncols occ" using h Cons.prems by simp
    show "\<forall>i \<in> set is. i < nrows occ \<and> i < dim0 sa1 \<and>
         (\<forall>j < dim1 sa1. 1 \<le> elems occ i j \<longrightarrow> cells sa1 i j 1 + elems occ i j \<noteq> 0)"
      using h Cons.prems by auto
  qed
  with c show ?case by simp
qed

lemma update_valmat_succeeds:
  assumes "dim0 sa \<le> nrows occ" "dim1 sa \<le> ncols occ" "2 \<le> dim2 sa"
    "\<forall>i j. 0 \<le> cells sa i j 1"
  shows "\<exists>sa'. update_valmat sa occ rew = Inr sa'"
  unfolding update_valmat_def
proof (rule update_rows_succeeds)
  show "\<forall>i \<in> set [0..<dim0 sa]. i < nrows occ \<and> i < dim0 sa \<and>
         (\<forall>j < dim1 sa. 1 \<le> elems occ i j \<longrightarrow> cells sa i j 1 + elems occ i j \<noteq> 0)"
  proof (intro ballI conjI allI impI)
    fix i j assume "1 \<le> elems occ i j"
    moreover have "0 \<le> cells sa i j 1" using assms(4) by blast
    ultimately show "cells sa i j 1 + elems occ i j \<noteq> 0" by linarith
  qed (use assms in auto)
qed (use assms in auto)

lemma initial_shape [simp]:
  "dim0 initial_sa_valmat = 16" "dim1 initial_sa_valmat = 4" "dim2 initial_sa_valmat = 2"
  by (simp_all add: initial_sa_valmat_def add_channel_def np_zeros3_def)

lemma initial_cells [simp]:
  "cells initial_sa_valmat i j k = (if k = 0 then 1 / 100 else 0)"
  by (simp add: initial_sa_valmat_def add_channel_def np_zeros3_def)

lemma one_iteration_shape:
  assumes "one_iteration R fuel sa policy eps w = (Returned (sa', rew, n), w')"
  shows "dim0 sa' = dim0 sa \<and> dim1 sa' = dim1 sa \<and> dim2 sa' = dim2 sa"
  using one_iteration_Returned [OF assms] update_valmat_Inr by blast

lemma one_iteration_counts:
  assumes "one_iteration R fuel sa policy eps w = (Returned (sa', rew, n), w')"
    and "i < dim0 sa" and "j < dim1 sa"
  shows "cells sa' i j 1 = cells sa i j 1 + real (visits (one_iteration_trace R fuel sa policy eps w) i j)"
proof -
  from one_iteration_Returned [OF assms(1)] obtain occ where
    occ: "\<And>i j. elems occ i j = real (visits (one_iteration_trace R fuel sa policy eps w) i j)"
    and upd: "update_valmat sa occ rew = Inr sa'"
    by blast
  from update_valmat_Inr [OF upd] have
    "cells sa' i j 1 = (if i < dim0 sa \<and> j < dim1 sa \<and> elems occ i j \<ge> 1 then new_cell sa occ rew i j 1
             else cells sa i j 1)" by blast
  then show ?thesis
    using assms(2,3) occ [of i j] by (auto simp: new_cell_def)
qed

lemma reachable_valmat_invariant:
  "reachable_valmat R sa \<Longrightarrow>
     dim0 sa = 16 \<and> dim1 sa = 4 \<and> dim2 sa = 2 \<and> (\<forall>i j. 0 \<le> cells sa i j 1)"
proof (induction rule: reachable_valmat.induct)
  case initial
  show ?case by simp
next
  case (episode sa fuel policy eps w sa' rew n w')
  from one_iteration_Returned [OF episode.hyps(2)] obtain occ where
    occ: "\<And>i j. elems occ i j = real (visits (one_iteration_trace R fuel sa policy eps w) i j)"
    and upd: "update_valmat sa occ rew = Inr sa'"
    by blast
  note u = update_valmat_Inr [OF upd]
  have "0 \<le> cells sa' i j 1" for i j
  proof -
    have "cells sa' i j 1 = (if i < dim0 sa \<and> j < dim1 sa \<and> elems occ i j \<ge> 1 then new_cell sa occ rew i j 1
             else cells sa i j 1)" using u by blast
    moreover have "0 \<le> cells sa i j 1" using episode.IH by blast
    moreover have "0 \<le> elems occ i j" using occ by simp
    ultimately show ?thesis by (auto simp: new_cell_def)
  qed
  with u episode.IH show ?case by simp
qed

text \<open>
  Fuel only bounds the loop of the model: what an episode returns or raises with some
  fuel, it returns or raises with any more.
\<close>

lemma episode_loop_more_fuel:
  assumes "episode_loop fuel R sa policy eps occ d state rew sc w = (r, w')"
    and "r \<noteq> OutOfFuel" and "fuel \<le> fuel'"
  shows "episode_loop fuel' R sa policy eps occ d state rew sc w = (r, w')"
  using assms
proof (induction fuel arbitrary: fuel' occ d state rew sc w)
  case 0
  then show ?case by (cases fuel') (auto split: if_splits)
next
  case (Suc fuel)
  from Suc.prems(3) obtain f where f: "fuel' = Suc f" "fuel \<le> f" by (cases fuel') auto
  show ?case
  proof (cases d)
    case True
    with Suc.prems(1) f show ?thesis by simp
  next
    case False
    obtain x w1 where sel: "select_action R sa policy eps state w = (x, w1)"
      by (cases "select_action R sa policy eps state w")
    show ?thesis
    proof (cases x)
      case (Inl e)
      with Suc.prems(1) False sel f show ?thesis by simp
    next
      case (Inr action)
      show ?thesis
      proof (cases "incr2 occ state action")
        case (Inl e)
        with Suc.prems(1) False sel Inr f show ?thesis by simp
      next
        case occ1: (Inr occ1)
        obtain state1 reward d1 w2 where stp: "env_step R action w1 = ((state1, reward, d1), w2)"
          by (metis prod.exhaust)
        from Suc.prems(1) False sel Inr occ1 stp have
          "episode_loop fuel R sa policy eps occ1 d1 state1 (max rew reward) (sc + 1) w2 = (r, w')"
          by simp
        from Suc.IH [OF this Suc.prems(2) f(2)] False sel Inr occ1 stp f(1)
        show ?thesis by simp
      qed
    qed
  qed
qed

lemma one_iteration_more_fuel:
  assumes "one_iteration R fuel sa policy eps w = (r, w')"
    and "r \<noteq> OutOfFuel" and "fuel \<le> fuel'"
  shows "one_iteration R fuel' sa policy eps w = (r, w')"
proof -
  obtain x w1 where l: "episode_loop fuel R sa policy eps (np_zeros2 16 4) False 0 0 0 (env_reset R w) = (x, w1)"
    by (cases "episode_loop fuel R sa policy eps (np_zeros2 16 4) False 0 0 0 (env_reset R w)")
  from assms(1,2) l have "x \<noteq> OutOfFuel"
    by (auto simp: one_iteration_def init_env_def)
  from episode_loop_more_fuel [OF l this assms(3)] l assms(1)
  show ?thesis by (simp add: one_iteration_def init_env_def)
qed

section \<open>Evaluating an episode in the ring world\<close>

lemma episode_loop_unfold:
  "0 < fuel \<Longrightarrow>
   episode_loop fuel R sa policy eps occ d state rew sc w =
     (if d then (Returned (occ, rew, sc), w)
      else
        (case select_action R sa policy eps state w of
           (Inl e, w1) \<Rightarrow> (Raised e, w1)
         | (Inr action, w1) \<Rightarrow>
             (case incr2 occ state action of
                Inl e \<Rightarrow> (Raised e, w1)
              | Inr occ' \<Rightarrow>
                  (case env_step R action w1 of
                     ((state', reward, d'), w2) \<Rightarrow>
                       episode_loop (fuel - 1) R sa policy eps occ' d' state'
                         (max rew reward) (sc + 1) w2))))"
  by (cases fuel) (auto split: prod.splits sum.splits)

lemma episode_loop_done:
  "episode_loop fuel R sa policy eps occ True state rew sc w = (Returned (occ, rew, sc), w)"
  by (cases fuel) simp_all

lemma row2_random_policy_matrix:
  "state < 16 \<Longrightarrow> row2 random_policy_matrix state = Inr (map (elems random_policy_matrix state) [0..<4])"
  by (simp add: row2_def random_policy_matrix_def add_scalar2_def np_zeros2_def)

lemma select_random:
  "state < 16 \<Longrightarrow> select_action R sa ''random'' eps state w =
     (case random_choice R array_of_choices (map (elems random_policy_matrix state) [0..<4]) w of
        (x, w') \<Rightarrow> (Inr x, w'))"
  by (simp add: select_action_def row2_random_policy_matrix np_random_choice_def array_of_choices_def)

lemma ring_choice: "random_choice ring_world array_of_choices p (s, k) = (if k < 2 then 2 else 0, (s, Suc k))"
  by (simp add: ring_world_def array_of_choices_def)

lemma ring_step: "env_step ring_world a (s, k) =
   (let s' = (if a = 0 then (s + 3) mod 4 else if a = 1 then (s + 1) mod 4 else s)
         in ((s', if s' = 3 then 1 else 0, s' = 3), (s', k)))"
  by (simp add: ring_world_def)

lemma ring_reset: "env_reset ring_world (s, k) = (0, k)"
  by (simp add: ring_world_def)

lemma incr2_zeros: "i < nrows a \<Longrightarrow> j < ncols a \<Longrightarrow> incr2 a i j = Inr (set2 a i j (elems a i j + 1))"
  by (simp add: incr2_def in2_def)

lemma set2_shape [simp]: "nrows (set2 a i j v) = nrows a" "ncols (set2 a i j v) = ncols a"
  by (simp_all add: set2_def)

lemma zeros2_shape [simp]: "nrows (np_zeros2 r c) = r" "ncols (np_zeros2 r c) = c"
  by (simp_all add: np_zeros2_def)

lemma episode_trace_unfold:
  "0 < fuel \<Longrightarrow>
   episode_trace fuel R sa policy eps d state w =
     (if d then []
      else
        (case select_action R sa policy eps state w of
           (Inl e, w1) \<Rightarrow> []
         | (Inr action, w1) \<Rightarrow>
             (case env_step R action w1 of
                ((state', reward, d'), w2) \<Rightarrow>
                  (state, action, reward) # episode_trace (fuel - 1) R sa policy eps d' state' w2)))"
  by (cases fuel) (auto split: prod.splits sum.splits)

lemma episode_trace_done: "episode_trace fuel R sa policy eps True state w = []"
  by (cases fuel) simp_all

lemma ring_first_trace:
  "one_iteration_trace ring_world 5 sa ''random'' eps (0, 0) = [(0, 2, 0), (0, 2, 0), (0, 0, 1)]"
  by (simp add: one_iteration_trace_def ring_reset episode_trace_unfold episode_trace_done
         select_random ring_choice ring_step)

lemma ring_first_loop:
  "episode_loop 5 ring_world sa ''random'' eps (np_zeros2 16 4) False 0 0 0 (0, 0)
   = (Returned (set2 (set2 (set2 (np_zeros2 16 4) 0 2 1) 0 2 2) 0 0 1, 1, 3), (3, 3))"
  by (simp add: episode_loop_unfold episode_loop_done select_random ring_choice ring_step incr2_zeros
       set2_def np_zeros2_def)

lemma ring_first_episode:
  "\<exists>sa'. one_iteration ring_world 5 initial_sa_valmat ''random'' eps (0, 0) = (Returned (sa', 1, 3), (3, 3))"
proof -
  have "\<exists>sa'. update_valmat initial_sa_valmat (set2 (set2 (set2 (np_zeros2 16 4) 0 2 1) 0 2 2) 0 0 1) 1 = Inr sa'"
    by (rule update_valmat_succeeds) simp_all
  then show ?thesis
    by (auto simp: one_iteration_def init_env_def ring_reset ring_first_loop)
qed

section \<open>Rewards and the arg-max\<close>

lemma fold_max_Max: "fold max xs (a::real) = Max (insert a (set xs))"
proof (induction xs arbitrary: a)
  case Nil
  then show ?case by simp
next
  case (Cons x xs)
  have "Max (insert (max x a) (set xs)) = Max (insert a (insert x (set xs)))"
  proof (cases "set xs = {}")
    case True
    then show ?thesis by (simp add: max.commute)
  next
    case False
    then show ?thesis by (simp add: max.commute max.left_commute max.assoc)
  qed
  with Cons.IH [of "max x a"] show ?case by simp
qed

lemma episode_trace_rewards:
  "(s, a, r) \<in> set (episode_trace fuel R sa policy eps d state w) \<Longrightarrow>
     \<exists>a' w'. r = fst (snd (fst (env_step R a' w')))"
proof (induction fuel arbitrary: d state w)
  case 0
  then show ?case by simp
next
  case (Suc fuel)
  show ?case
  proof (cases d)
    case True
    with Suc.prems show ?thesis by simp
  next
    case False
    obtain x w1 where sel: "select_action R sa policy eps state w = (x, w1)"
      by (cases "select_action R sa policy eps state w")
    show ?thesis
    proof (cases x)
      case (Inl e)
      with Suc.prems False sel show ?thesis by simp
    next
      case (Inr action)
      obtain state1 reward d1 w2 where stp: "env_step R action w1 = ((state1, reward, d1), w2)"
        by (metis prod.exhaust)
      from Suc.prems False sel Inr stp
      have "(s, a, r) = (state, action, reward) \<or>
            (s, a, r) \<in> set (episode_trace fuel R sa policy eps d1 state1 w2)"
        by simp
      then show ?thesis
      proof
        assume "(s, a, r) = (state, action, reward)"
        then have "r = fst (snd (fst (env_step R action w1)))" using stp by simp
        then show ?thesis by blast
      next
        assume "(s, a, r) \<in> set (episode_trace fuel R sa policy eps d1 state1 w2)"
        from Suc.IH [OF this] show ?thesis .
      qed
    qed
  qed
qed

lemma argmax_from_first_maximum:
  assumes "best < length ys" and "ys ! best = bv"
    and "\<forall>k < length ys. ys ! k \<le> bv" and "\<forall>k < best. ys ! k < bv"
  shows "argmax_from xs (length ys) best bv < length (ys @ xs) \<and>
         (\<forall>k < length (ys @ xs). (ys @ xs) ! k \<le> (ys @ xs) ! argmax_from xs (length ys) best bv) \<and>
         (\<forall>k < argmax_from xs (length ys) best bv.
            (ys @ xs) ! k < (ys @ xs) ! argmax_from xs (length ys) best bv)"
  using assms
proof (induction xs arbitrary: ys best bv)
  case Nil
  then show ?case by simp
next
  case (Cons x xs)
  show ?case
  proof (cases "bv < x")
    case True
    have "argmax_from xs (length (ys @ [x])) (length ys) x < length ((ys @ [x]) @ xs) \<and>
         (\<forall>k < length ((ys @ [x]) @ xs). ((ys @ [x]) @ xs) ! k \<le> ((ys @ [x]) @ xs) ! argmax_from xs (length (ys @ [x])) (length ys) x) \<and>
         (\<forall>k < argmax_from xs (length (ys @ [x])) (length ys) x.
            ((ys @ [x]) @ xs) ! k < ((ys @ [x]) @ xs) ! argmax_from xs (length (ys @ [x])) (length ys) x)"
    proof (rule Cons.IH)
      show "length ys < length (ys @ [x])" by simp
      show "(ys @ [x]) ! length ys = x" by simp
      show "\<forall>k<length (ys @ [x]). (ys @ [x]) ! k \<le> x"
        using Cons.prems(3) True by (auto simp: nth_append less_Suc_eq intro: less_imp_le order.trans)
      show "\<forall>k<length ys. (ys @ [x]) ! k < x"
        using Cons.prems(3) True by (auto simp: nth_append intro: le_less_trans)
    qed
    with True show ?thesis by simp
  next
    case False
    have "argmax_from xs (length (ys @ [x])) best bv < length ((ys @ [x]) @ xs) \<and>
         (\<forall>k < length ((ys @ [x]) @ xs). ((ys @ [x]) @ xs) ! k \<le> ((ys @ [x]) @ xs) ! argmax_from xs (length (ys @ [x])) best bv) \<and>
         (\<forall>k < argmax_from xs (length (ys @ [x])) best bv.
            ((ys @ [x]) @ xs) ! k < ((ys @ [x]) @ xs) ! argmax_from xs (length (ys @ [x])) best bv)"
    proof (rule Cons.IH)
      show "best < length (ys @ [x])" using Cons.prems(1) by simp
      show "(ys @ [x]) ! best = bv" using Cons.prems(1,2) by (simp add: nth_append)
      show "\<forall>k<length (ys @ [x]). (ys @ [x]) ! k \<le> bv"
        using Cons.prems(3) False by (auto simp: nth_append less_Suc_eq)
      show "\<forall>k<best. (ys @ [x]) ! k < bv"
        using Cons.prems(1,4) by (auto simp: nth_append)
    qed
    with False show ?thesis by simp
  qed
qed

lemma np_argmax_first_maximum:
  assumes "xs \<noteq> []"
  shows "\<exists>a. np_argmax xs = Inr a \<and> a < length xs \<and>
           (\<forall>k < length xs. xs ! k \<le> xs ! a) \<and> (\<forall>k < a. xs ! k < xs ! a)"
proof -
  from assms obtain x rest where xs: "xs = x # rest" by (cases xs) auto
  from argmax_from_first_maximum [of 0 "[x]" x rest]
  show ?thesis by (simp add: xs np_argmax_def)
qed

lemma upt_4: "[0..<4] = [0, 1, 2, 3]"
  by (simp add: upt_conv_Cons)

lemma length_array_of_choices: "length array_of_choices = 4"
  by (simp add: array_of_choices_def)

section \<open>The phases of a training run\<close>

lemma run_episodes_append:
  "run_episodes (xs @ ys) R fuel sa wc w =
     (case run_episodes xs R fuel sa wc w of
        (Returned (sa', wc'), w') \<Rightarrow> run_episodes ys R fuel sa' wc' w'
      | (Raised e, w') \<Rightarrow> (Raised e, w')
      | (OutOfFuel, w') \<Rightarrow> (OutOfFuel, w'))"
proof (induction xs arbitrary: sa wc w)
  case Nil
  then show ?case by simp
next
  case (Cons x xs)
  obtain policy eps where x: "x = (policy, eps)" by (cases x)
  show ?case
    by (simp add: x Cons.IH split: prod.splits outcome.splits)
qed

lemma warm_up_loop_run_episodes:
  "warm_up_loop k R fuel sa tw w = run_episodes (replicate k (''random'', 0.1)) R fuel sa tw w"
  by (induction k arbitrary: sa tw w) (simp_all split: prod.splits outcome.splits)

lemma train_loop_run_episodes:
  "train_loop is R fuel policy n sa tw w =
     run_episodes (map (\<lambda>i. (policy, epsilon_schedule i n)) is) R fuel sa tw w"
  by (induction "is" arbitrary: sa tw w) (simp_all split: prod.splits outcome.splits)

lemma test_loop_unbound:
  "0 < m \<Longrightarrow> test_loop [0..<m] R fuel sa None None w =
     (case one_iteration R fuel sa ''tiny_epsilon'' 0 w of
        (Returned x, w') \<Rightarrow> (Raised UnboundLocalError, w')
      | (Raised e, w') \<Rightarrow> (Raised e, w')
      | (OutOfFuel, w') \<Rightarrow> (OutOfFuel, w'))"
  by (simp add: upt_conv_Cons split: prod.splits outcome.splits)

lemma train_and_test_run_episodes:
  assumes "0 < test_epochs"
  shows "train_and_test R fuel test_win policy train_epochs test_epochs w =
           (case run_episodes (spec_schedule policy train_epochs) R fuel initial_sa_valmat 0 w of
              (Returned (sa, train_wins), w1) \<Rightarrow>
                (case one_iteration R fuel sa ''tiny_epsilon'' 0 w1 of
                   (Returned x, w2) \<Rightarrow> (Raised UnboundLocalError, w2)
                 | (Raised e, w2) \<Rightarrow> (Raised e, w2)
                 | (OutOfFuel, w2) \<Rightarrow> (OutOfFuel, w2))
            | (Raised e, w1) \<Rightarrow> (Raised e, w1)
            | (OutOfFuel, w1) \<Rightarrow> (OutOfFuel, w1))"
  unfolding train_and_test_def spec_schedule_def run_episodes_append Let_def
    warm_up_loop_run_episodes train_loop_run_episodes test_loop_unbound [OF assms]
  by (simp split: prod.splits outcome.splits)

text \<open>
  With a test episode to run, no run of \<^verbatim>\<open>train_and_test\<close> returns: the test episode
  fails, or runs out of fuel, or it returns and the addition to \<^verbatim>\<open>wins\<close> raises.
\<close>

lemma train_and_test_never_returns:
  assumes "0 < test_epochs"
  shows "fst (train_and_test R fuel test_win policy train_epochs test_epochs w) \<noteq> Returned x"
  unfolding train_and_test_run_episodes [OF assms]
  by (simp split: prod.splits outcome.splits)

lemma logging_random_episode:
  assumes "reachable_valmat logging_world sa" and "0 < fuel"
  shows "\<exists>sa'. one_iteration logging_world fuel sa ''random'' eps w =
           (Returned (sa', 1, 1), w @ [''reset'', ''choice'', ''step''])"
proof -
  note inv = reachable_valmat_invariant [OF assms(1)]
  have c: "random_choice logging_world array_of_choices p l = (0, l @ [''choice''])" for p l
    by (simp add: logging_world_def array_of_choices_def)
  have s: "env_step logging_world a l = ((0, 1, True), l @ [''step''])" for a l
    by (simp add: logging_world_def)
  have l: "episode_loop fuel logging_world sa ''random'' eps (np_zeros2 16 4) False 0 0 0 (w @ [''reset''])
        = (Returned (set2 (np_zeros2 16 4) 0 0 (elems (np_zeros2 16 4) 0 0 + 1), 1, 1), w @ [''reset'', ''choice'', ''step''])"
    using assms(2) by (simp add: episode_loop_unfold episode_loop_done select_random c s incr2_zeros)
  have "\<exists>sa'. update_valmat sa (set2 (np_zeros2 16 4) 0 0 (elems (np_zeros2 16 4) 0 0 + 1)) 1 = Inr sa'"
    by (rule update_valmat_succeeds) (use inv in simp_all)
  then obtain sa' where upd: "update_valmat sa (set2 (np_zeros2 16 4) 0 0 (elems (np_zeros2 16 4) 0 0 + 1)) 1 = Inr sa'" ..
  have r: "env_reset logging_world w = w @ [''reset'']"
    by (simp add: logging_world_def)
  have "one_iteration logging_world fuel sa ''random'' eps w =
           (Returned (sa', 1, 1), w @ [''reset'', ''choice'', ''step''])"
    apply (simp only: one_iteration_def init_env_def r prod.case)
    apply (simp only: l)
    apply (simp only: prod.case outcome.case upd sum.case)
    done
  then show ?thesis by blast
qed

lemma logging_greedy_episode:
  assumes "reachable_valmat logging_world sa" and "0 < fuel"
  shows "\<exists>sa'. one_iteration logging_world fuel sa ''tiny_epsilon'' 0 w =
           (Returned (sa', 1, 1), w @ [''reset'', ''uniform'', ''step''])"
proof -
  note inv = reachable_valmat_invariant [OF assms(1)]
  have u: "random_uniform logging_world lo hi l = (lo, l @ [''uniform''])" for lo hi l
    by (simp add: logging_world_def)
  have s: "env_step logging_world a l = ((0, 1, True), l @ [''step''])" for a l
    by (simp add: logging_world_def)
  let ?vs = "map (\<lambda>j. cells sa 0 j 0) [0..<dim1 sa]"
  have sl: "slice3 sa 0 0 = Inr ?vs" using inv by (simp add: slice3_def)
  have "?vs \<noteq> []" using inv by simp
  from np_argmax_first_maximum [OF this] obtain a where
    a: "np_argmax ?vs = Inr a" "a < length ?vs" by blast
  then have a4: "a < 4" using inv by simp
  have sel: "select_action logging_world sa ''tiny_epsilon'' 0 0 l = (Inr a, l @ [''uniform''])" for l
    by (simp add: select_action_def tiny_epsilon_choice_def u sl a(1))
  have l: "episode_loop fuel logging_world sa ''tiny_epsilon'' 0 (np_zeros2 16 4) False 0 0 0 (w @ [''reset''])
        = (Returned (set2 (np_zeros2 16 4) 0 a (elems (np_zeros2 16 4) 0 a + 1), 1, 1), w @ [''reset'', ''uniform'', ''step''])"
    using assms(2) a4 by (simp add: episode_loop_unfold episode_loop_done sel s incr2_zeros)
  have "\<exists>sa'. update_valmat sa (set2 (np_zeros2 16 4) 0 a (elems (np_zeros2 16 4) 0 a + 1)) 1 = Inr sa'"
    by (rule update_valmat_succeeds) (use inv in simp_all)
  then obtain sa' where upd: "update_valmat sa (set2 (np_zeros2 16 4) 0 a (elems (np_zeros2 16 4) 0 a + 1)) 1 = Inr sa'" ..
  have r: "env_reset logging_world w = w @ [''reset'']"
    by (simp add: logging_world_def)
  have "one_iteration logging_world fuel sa ''tiny_epsilon'' 0 w =
           (Returned (sa', 1, 1), w @ [''reset'', ''uniform'', ''step''])"
    apply (simp only: one_iteration_def init_env_def r prod.case)
    apply (simp only: l)
    apply (simp only: prod.case outcome.case upd sum.case)
    done
  then show ?thesis by blast
qed

lemma logging_run_episodes:
  assumes "reachable_valmat logging_world sa" and "0 < fuel"
  shows "\<exists>sa'. reachable_valmat logging_world sa' \<and>
           run_episodes (map (Pair ''random'') es) logging_world fuel sa wc w =
             (Returned (sa', wc + real (length es)),
              w @ concat (replicate (length es) [''reset'', ''choice'', ''step'']))"
  using assms(1)
proof (induction es arbitrary: sa wc w)
  case Nil
  then show ?case by simp
next
  case (Cons eps es)
  from logging_random_episode [OF Cons.prems assms(2), of eps w] obtain sa1 where
    e: "one_iteration logging_world fuel sa ''random'' eps w =
           (Returned (sa1, 1, 1), w @ [''reset'', ''choice'', ''step''])" ..
  have r1: "reachable_valmat logging_world sa1"
    by (rule reachable_valmat.episode [OF Cons.prems e])
  from Cons.IH [OF r1, of "wc + 1" "w @ [''reset'', ''choice'', ''step'']"]
  obtain sa' where r': "reachable_valmat logging_world sa'" and
    run: "run_episodes (map (Pair ''random'') es) logging_world fuel sa1 (wc + 1) (w @ [''reset'', ''choice'', ''step'']) =
             (Returned (sa', wc + 1 + real (length es)),
              (w @ [''reset'', ''choice'', ''step'']) @ concat (replicate (length es) [''reset'', ''choice'', ''step'']))"
    by (elim exE conjE)
  have step: "run_episodes (map (Pair ''random'') (eps # es)) logging_world fuel sa wc w =
      run_episodes (map (Pair ''random'') es) logging_world fuel sa1 (wc + 1) (w @ [''reset'', ''choice'', ''step''])"
    by (simp add: e)
  have "run_episodes (map (Pair ''random'') (eps # es)) logging_world fuel sa wc w =
             (Returned (sa', wc + real (length (eps # es))),
              w @ concat (replicate (length (eps # es)) [''reset'', ''choice'', ''step'']))"
    unfolding step run by simp
  with r' show ?case by blast
qed

lemma spec_schedule_random:
  "spec_schedule ''random'' 1 =
     map (Pair ''random'') (replicate 10 (1 / 10) @ [epsilon_schedule 0 1])"
  by (simp add: spec_schedule_def)

lemma logging_schedule:
  "\<exists>sa sa'.
     run_episodes (spec_schedule ''random'' 1) logging_world 5 initial_sa_valmat 0 [] =
       (Returned (sa, 11), concat (replicate 11 [''reset'', ''choice'', ''step''])) \<and>
     one_iteration logging_world 5 sa ''tiny_epsilon'' 0
        (concat (replicate 11 [''reset'', ''choice'', ''step''])) =
       (Returned (sa', 1, 1),
        concat (replicate 11 [''reset'', ''choice'', ''step'']) @ [''reset'', ''uniform'', ''step''])"
proof -
  have len: "length (replicate 10 (1 / 10 :: real) @ [epsilon_schedule 0 1]) = 11"
    by simp
  from logging_run_episodes [OF reachable_valmat.initial, of 5 "replicate 10 (1 / 10) @ [epsilon_schedule 0 1]" 0 "[]"]
  obtain sa where sa: "reachable_valmat logging_world sa"
    "run_episodes (spec_schedule ''random'' 1) logging_world 5 initial_sa_valmat 0 [] =
       (Returned (sa, 11), concat (replicate 11 [''reset'', ''choice'', ''step'']))"
    unfolding spec_schedule_random len by auto
  from logging_greedy_episode [OF sa(1), of 5 "concat (replicate 11 [''reset'', ''choice'', ''step''])"]
  obtain sa' where g: "one_iteration logging_world 5 sa ''tiny_epsilon'' 0
        (concat (replicate 11 [''reset'', ''choice'', ''step''])) =
           (Returned (sa', 1, 1), concat (replicate 11 [''reset'', ''choice'', ''step'']) @ [''reset'', ''uniform'', ''step''])"
    by auto
  from sa(2) g show ?thesis by blast
qed

lemma logging_train_and_test:
  "train_and_test logging_world 5 test_win ''random'' 1 1 [] =
     (Raised UnboundLocalError,
      concat (replicate 11 [''reset'', ''choice'', ''step'']) @ [''reset'', ''uniform'', ''step''])"
proof -
  from logging_schedule obtain sa sa' where
    sa: "run_episodes (spec_schedule ''random'' 1) logging_world 5 initial_sa_valmat 0 [] =
       (Returned (sa, 11), concat (replicate 11 [''reset'', ''choice'', ''step'']))" and
    g: "one_iteration logging_world 5 sa ''tiny_epsilon'' 0
        (concat (replicate 11 [''reset'', ''choice'', ''step''])) =
       (Returned (sa', 1, 1),
        concat (replicate 11 [''reset'', ''choice'', ''step'']) @ [''reset'', ''uniform'', ''step''])"
    by blast
  have t: "train_and_test logging_world 5 test_win ''random'' 1 1 [] =
           (case run_episodes (spec_schedule ''random'' 1) logging_world 5 initial_sa_valmat 0 [] of
              (Returned (sa, train_wins), w1) \<Rightarrow>
                (case one_iteration logging_world 5 sa ''tiny_epsilon'' 0 w1 of
                   (Returned x, w2) \<Rightarrow> (Raised UnboundLocalError, w2)
                 | (Raised e, w2) \<Rightarrow> (Raised e, w2)
                 | (OutOfFuel, w2) \<Rightarrow> (OutOfFuel, w2))
            | (Raised e, w1) \<Rightarrow> (Raised e, w1)
            | (OutOfFuel, w1) \<Rightarrow> (OutOfFuel, w1))"
    by (rule train_and_test_run_episodes) simp
  show ?thesis
    by (simp only: t sa g prod.case outcome.case)
qed

section \<open>The claims about the Monte Carlo estimator\<close>

text \<open>
  C1: when an episode of \<^verbatim>\<open>one_iteration\<close> has ended, every pair (state, action) of the
  matrix that the episode visited at least once has its visit count incremented by its
  number of occurrences in the episode, and its running average becomes
  old + (occurrences / new count) * (episode reward - old), the new count being the
  incremented one. A pair visited several times in the episode gets its occurrences as
  weight in this one step.
\<close>

theorem one_iteration_weighted_average:
  assumes "one_iteration R fuel sa policy eps w = (Returned (sa', rew, n), w')"
    and "i < dim0 sa" and "j < dim1 sa"
    and "1 \<le> visits (one_iteration_trace R fuel sa policy eps w) i j"
  shows "cells sa' i j 1 =
           cells sa i j 1 + real (visits (one_iteration_trace R fuel sa policy eps w) i j) \<and>
         cells sa' i j 0 =
           cells sa i j 0 +
             (real (visits (one_iteration_trace R fuel sa policy eps w) i j) / cells sa' i j 1)
               * (rew - cells sa i j 0)"
proof -
  from one_iteration_Returned [OF assms(1)] obtain occ where
    occ: "\<And>i j. elems occ i j = real (visits (one_iteration_trace R fuel sa policy eps w) i j)"
    and upd: "update_valmat sa occ rew = Inr sa'"
    by blast
  have ge: "1 \<le> elems occ i j" using assms(4) occ [of i j] by simp
  from update_valmat_Inr [OF upd] have
    "\<forall>k. cells sa' i j k = (if i < dim0 sa \<and> j < dim1 sa \<and> elems occ i j \<ge> 1 then new_cell sa occ rew i j k
             else cells sa i j k)" by blast
  with assms(2,3) ge have c: "\<And>k. cells sa' i j k = new_cell sa occ rew i j k" by simp
  show ?thesis
    using c [of 0] c [of 1] occ [of i j] by (simp add: new_cell_def)
qed

theorem one_iteration_weighted_average_witness:
  "\<exists>sa'. one_iteration ring_world 5 initial_sa_valmat ''random'' (1 / 10) (0, 0) = (Returned (sa', 1, 3), (3, 3)) \<and>
     visits (one_iteration_trace ring_world 5 initial_sa_valmat ''random'' (1 / 10) (0, 0)) 0 2 = 2 \<and>
     cells sa' 0 2 1 = 2 \<and> cells sa' 0 2 0 = 1"
proof -
  from ring_first_episode [of "1 / 10"] obtain sa' where
    r: "one_iteration ring_world 5 initial_sa_valmat ''random'' (1 / 10) (0, 0) = (Returned (sa', 1, 3), (3, 3))" ..
  have v: "visits (one_iteration_trace ring_world 5 initial_sa_valmat ''random'' (1 / 10) (0, 0)) 0 2 = 2"
    by (simp add: ring_first_trace)
  from one_iteration_weighted_average [OF r, of 0 2] v
  have "cells sa' 0 2 1 = 2 \<and> cells sa' 0 2 0 = 1" by simp
  with r v show ?thesis by blast
qed

text \<open>
  C9: a pair (state, action) that the episode did not visit keeps both its fields, the
  running average and the visit count, through the update at the end of
  \<^verbatim>\<open>one_iteration\<close>.
\<close>

theorem one_iteration_unvisited_unchanged:
  assumes "one_iteration R fuel sa policy eps w = (Returned (sa', rew, n), w')"
    and "visits (one_iteration_trace R fuel sa policy eps w) i j = 0"
  shows "cells sa' i j 0 = cells sa i j 0 \<and> cells sa' i j 1 = cells sa i j 1"
proof -
  from one_iteration_Returned [OF assms(1)] obtain occ where
    occ: "\<And>i j. elems occ i j = real (visits (one_iteration_trace R fuel sa policy eps w) i j)"
    and upd: "update_valmat sa occ rew = Inr sa'"
    by blast
  have z: "\<not> 1 \<le> elems occ i j" using assms(2) occ [of i j] by simp
  from update_valmat_Inr [OF upd] have
    "\<forall>k. cells sa' i j k = (if i < dim0 sa \<and> j < dim1 sa \<and> elems occ i j \<ge> 1 then new_cell sa occ rew i j k
             else cells sa i j k)" by blast
  with z show ?thesis by simp
qed

theorem one_iteration_unvisited_unchanged_witness:
  "\<exists>sa'. one_iteration ring_world 5 initial_sa_valmat ''random'' (1 / 10) (0, 0) = (Returned (sa', 1, 3), (3, 3)) \<and>
     visits (one_iteration_trace ring_world 5 initial_sa_valmat ''random'' (1 / 10) (0, 0)) 0 1 = 0 \<and>
     cells sa' 0 1 0 = 1 / 100 \<and> cells sa' 0 1 1 = 0"
proof -
  from ring_first_episode [of "1 / 10"] obtain sa' where
    r: "one_iteration ring_world 5 initial_sa_valmat ''random'' (1 / 10) (0, 0) = (Returned (sa', 1, 3), (3, 3))" ..
  have v: "visits (one_iteration_trace ring_world 5 initial_sa_valmat ''random'' (1 / 10) (0, 0)) 0 1 = 0"
    by (simp add: ring_first_trace)
  from one_iteration_unvisited_unchanged [OF r v]
  have "cells sa' 0 1 0 = 1 / 100 \<and> cells sa' 0 1 1 = 0" by simp
  with r v show ?thesis by blast
qed

text \<open>
  C10: in every matrix of a training run the visit counts are non-negative, and a call of
  \<^verbatim>\<open>one_iteration\<close> adds to the count of each pair exactly the number of its
  occurrences in the episode, a natural number, so that no count decreases.
\<close>

theorem visit_counts_nonnegative_monotone:
  assumes "reachable_valmat R sa"
    and "one_iteration R fuel sa policy eps w = (Returned (sa', rew, n), w')"
    and "i < 16" and "j < 4"
  shows "0 \<le> cells sa i j 1 \<and>
         cells sa' i j 1 = cells sa i j 1 + real (visits (one_iteration_trace R fuel sa policy eps w) i j) \<and>
         cells sa i j 1 \<le> cells sa' i j 1 \<and>
         0 \<le> cells sa' i j 1"
proof -
  note inv = reachable_valmat_invariant [OF assms(1)]
  have c: "cells sa' i j 1 = cells sa i j 1 + real (visits (one_iteration_trace R fuel sa policy eps w) i j)"
    using one_iteration_counts [OF assms(2), of i j] inv assms(3,4) by simp
  moreover have "0 \<le> cells sa i j 1" using inv by blast
  ultimately show ?thesis by simp
qed

theorem visit_counts_nonnegative_monotone_witness:
  "\<exists>sa'. reachable_valmat ring_world initial_sa_valmat \<and>
     one_iteration ring_world 5 initial_sa_valmat ''random'' (1 / 10) (0, 0) = (Returned (sa', 1, 3), (3, 3)) \<and>
     (0::nat) < 16 \<and> (2::nat) < 4 \<and> cells sa' 0 2 1 = 2"
proof -
  from ring_first_episode [of "1 / 10"] obtain sa' where
    r: "one_iteration ring_world 5 initial_sa_valmat ''random'' (1 / 10) (0, 0) = (Returned (sa', 1, 3), (3, 3))" ..
  have i: "reachable_valmat ring_world initial_sa_valmat" by (rule reachable_valmat.initial)
  from visit_counts_nonnegative_monotone [OF i r, of 0 2]
  have "cells sa' 0 2 1 = 2" by (simp add: ring_first_trace)
  with r i show ?thesis by auto
qed

text \<open>
  C8: the reward \<^verbatim>\<open>one_iteration\<close> returns is the maximum of 0 and the rewards of the
  steps of the episode. When every reward of the environment is 0 or 1 (as in the ring
  world), the returned reward is 0 or 1, under every exploration policy.
\<close>

theorem episode_reward_is_maximum:
  assumes "one_iteration R fuel sa policy eps w = (Returned (sa', rew, n), w')"
  shows "rew = Max (insert 0 (set (map (\<lambda>(s, a, r). r) (one_iteration_trace R fuel sa policy eps w)))) \<and>
         ((\<forall>a w. fst (snd (fst (env_step R a w))) = 0 \<or> fst (snd (fst (env_step R a w))) = 1)
            \<longrightarrow> rew = 0 \<or> rew = 1)"
proof -
  let ?tr = "one_iteration_trace R fuel sa policy eps w"
  let ?rs = "map (\<lambda>(s, a, r). r) ?tr"
  from one_iteration_Returned [OF assms] have
    "rew = fold max ?rs 0" by blast
  then have m: "rew = Max (insert 0 (set ?rs))" by (simp only: fold_max_Max)
  have "rew = 0 \<or> rew = 1"
    if env: "\<forall>a w. fst (snd (fst (env_step R a w))) = 0 \<or> fst (snd (fst (env_step R a w))) = 1"
  proof -
    have "Max (insert 0 (set ?rs)) \<in> insert 0 (set ?rs)"
      by (rule Max_in) simp_all
    with m have "rew = 0 \<or> rew \<in> set ?rs" by auto
    then show ?thesis
    proof
      assume "rew \<in> set ?rs"
      then obtain s a where "(s, a, rew) \<in> set ?tr" by auto
      from episode_trace_rewards [OF this [unfolded one_iteration_trace_def]] env
      show ?thesis by metis
    qed simp
  qed
  with m show ?thesis by blast
qed

theorem episode_reward_is_maximum_witness:
  "\<exists>sa'. one_iteration ring_world 5 initial_sa_valmat ''random'' (1 / 10) (0, 0) = (Returned (sa', 1, 3), (3, 3)) \<and>
     (1::real) = Max (insert 0 (set (map (\<lambda>(s, a, r). r)
        (one_iteration_trace ring_world 5 initial_sa_valmat ''random'' (1 / 10) (0, 0))))) \<and>
     (\<forall>a w. fst (snd (fst (env_step ring_world a w))) = 0 \<or>
            fst (snd (fst (env_step ring_world a w))) = 1)"
proof -
  from ring_first_episode [of "1 / 10"] obtain sa' where
    r: "one_iteration ring_world 5 initial_sa_valmat ''random'' (1 / 10) (0, 0) = (Returned (sa', 1, 3), (3, 3))" ..
  have "\<forall>a w. fst (snd (fst (env_step ring_world a w))) = 0 \<or>
            fst (snd (fst (env_step ring_world a w))) = 1"
    by (simp add: ring_world_def Let_def split: prod.splits)
  with episode_reward_is_maximum [OF r] r show ?thesis by blast
qed

text \<open>
  C5 (as amended): from the initial matrix of \<^verbatim>\<open>train_and_test\<close>, and from every matrix
  a run reaches from it, \<^verbatim>\<open>one_iteration\<close> never divides by zero: the count of a visited
  pair is at least 1 when the update divides by it. This rests on the guard
  \<^verbatim>\<open>sa_occurence_matrix[i,j] >= 1\<close>, on the increment that precedes the division and on
  the counts being non-negative, not on the seed: the seed 0.01 is stored in the average
  channel, and the count channel starts at exactly 0.
\<close>

theorem visit_count_divisor_nonzero:
  assumes "reachable_valmat R sa"
  shows "fst (one_iteration R fuel sa policy eps w) \<noteq> Raised FloatDivideByZero \<and>
         (\<forall>sa' rew n w' i j.
            one_iteration R fuel sa policy eps w = (Returned (sa', rew, n), w') \<and> i < 16 \<and> j < 4 \<and>
            1 \<le> visits (one_iteration_trace R fuel sa policy eps w) i j
            \<longrightarrow> 1 \<le> cells sa' i j 1)"
proof -
  note inv = reachable_valmat_invariant [OF assms]
  then have nn: "\<forall>i j. 0 \<le> cells sa i j 1" by blast
  have "1 \<le> cells sa' i j 1"
    if r: "one_iteration R fuel sa policy eps w = (Returned (sa', rew, n), w')" and "i < 16" "j < 4"
      and v: "1 \<le> visits (one_iteration_trace R fuel sa policy eps w) i j"
    for sa' rew n w' i j
  proof -
    have "cells sa' i j 1 = cells sa i j 1 + real (visits (one_iteration_trace R fuel sa policy eps w) i j)"
      using one_iteration_counts [OF r, of i j] inv that by simp
    moreover have "0 \<le> cells sa i j 1" using nn by blast
    moreover have "1 \<le> real (visits (one_iteration_trace R fuel sa policy eps w) i j)" using v by simp
    ultimately show ?thesis by linarith
  qed
  then have b: "\<forall>sa' rew n w' i j.
            one_iteration R fuel sa policy eps w = (Returned (sa', rew, n), w') \<and> i < 16 \<and> j < 4 \<and>
            1 \<le> visits (one_iteration_trace R fuel sa policy eps w) i j
            \<longrightarrow> 1 \<le> cells sa' i j 1"
    by (intro allI impI) (elim conjE)
  from one_iteration_no_zero_division [OF nn] b show ?thesis by (rule conjI)
qed

theorem visit_count_divisor_nonzero_witness:
  "reachable_valmat ring_world initial_sa_valmat \<and>
   fst (one_iteration ring_world 5 initial_sa_valmat ''random'' (1 / 10) (0, 0)) \<noteq> Raised FloatDivideByZero \<and>
   (\<exists>sa'. one_iteration ring_world 5 initial_sa_valmat ''random'' (1 / 10) (0, 0) = (Returned (sa', 1, 3), (3, 3)) \<and>
      (0::nat) < 16 \<and> (2::nat) < 4 \<and>
      1 \<le> visits (one_iteration_trace ring_world 5 initial_sa_valmat ''random'' (1 / 10) (0, 0)) 0 2 \<and>
      1 \<le> cells sa' 0 2 1)"
proof -
  have i: "reachable_valmat ring_world initial_sa_valmat" by (rule reachable_valmat.initial)
  from ring_first_episode [of "1 / 10"] obtain sa' where
    r: "one_iteration ring_world 5 initial_sa_valmat ''random'' (1 / 10) (0, 0) = (Returned (sa', 1, 3), (3, 3))" ..
  have v: "1 \<le> visits (one_iteration_trace ring_world 5 initial_sa_valmat ''random'' (1 / 10) (0, 0)) 0 2"
    by (simp add: ring_first_trace)
  note t = visit_count_divisor_nonzero [OF i, of 5 "''random''" "1 / 10" "(0, 0)"]
  note t2 = t [THEN conjunct2, rule_format, of sa' 1 3 "(3, 3)" 0 2]
  from t2 r v have c: "1 \<le> cells sa' 0 2 1" by simp
  from t have n: "fst (one_iteration ring_world 5 initial_sa_valmat ''random'' (1 / 10) (0, 0)) \<noteq> Raised FloatDivideByZero"
    by (rule conjunct1)
  from r v c have "\<exists>sa'. one_iteration ring_world 5 initial_sa_valmat ''random'' (1 / 10) (0, 0) = (Returned (sa', 1, 3), (3, 3)) \<and>
      (0::nat) < 16 \<and> (2::nat) < 4 \<and>
      1 \<le> visits (one_iteration_trace ring_world 5 initial_sa_valmat ''random'' (1 / 10) (0, 0)) 0 2 \<and>
      1 \<le> cells sa' 0 2 1"
    by (intro exI [of _ sa']) simp
  with i n show ?thesis by (intro conjI)
qed

text \<open>
  Against C5 as stated: after the initialisation the count of every pair, the later
  divisor, is exactly 0 (the seed is in the other channel), a division by it would be a
  division by zero, and for a pair without occurrences it is the guard that skips the
  update.
\<close>

theorem seed_is_not_the_divisor_counterexample:
  "cells initial_sa_valmat 0 0 0 = 1 / 100 \<and>
   cells initial_sa_valmat 0 0 1 = 0 \<and>
   np_divide 1 (cells initial_sa_valmat 0 0 1) = Inl FloatDivideByZero \<and>
   update_cell initial_sa_valmat (np_zeros2 16 4) 1 0 0 = Inr initial_sa_valmat"
  by (simp add: np_divide_def update_cell_def in2_def np_zeros2_def)

text \<open>
  C4 (as amended): under a policy name other than \<^verbatim>\<open>random\<close>, \<^verbatim>\<open>tiny_epsilon\<close> and
  \<^verbatim>\<open>softmax\<close>, \<^verbatim>\<open>one_iteration\<close> resets the environment and then fails in the first
  iteration of its loop with UnboundLocalError, where it reads the action that no branch
  has bound; it makes no step in the environment and no random draw.
\<close>

theorem unknown_policy_fails_after_reset:
  assumes "policy \<noteq> ''random''" and "policy \<noteq> ''tiny_epsilon''" and "policy \<noteq> ''softmax''"
    and "0 < fuel"
  shows "one_iteration R fuel sa policy eps w = (Raised UnboundLocalError, env_reset R w)"
proof -
  from assms(4) obtain f where f: "fuel = Suc f" by (cases fuel) auto
  have "select_action R sa policy eps 0 (env_reset R w) = (Inl UnboundLocalError, env_reset R w)"
    using assms(1-3) by (simp add: select_action_def)
  then show ?thesis
    by (simp add: one_iteration_def init_env_def f)
qed

theorem unknown_policy_fails_after_reset_witness:
  "''greedy'' \<noteq> ''random'' \<and> ''greedy'' \<noteq> ''tiny_epsilon'' \<and> ''greedy'' \<noteq> ''softmax'' \<and> (0::nat) < 5 \<and>
   one_iteration logging_world 5 initial_sa_valmat ''greedy'' (1 / 10) [] = (Raised UnboundLocalError, [''reset''])"
  using unknown_policy_fails_after_reset [of "''greedy''" 5 logging_world initial_sa_valmat "1 / 10" "[]"]
  by (simp add: logging_world_def)

text \<open>
  Against C4 as stated: in the logging world the failure under the unknown policy name
  \<^verbatim>\<open>greedy\<close> comes after the environment has been reset.
\<close>

theorem unknown_policy_counterexample:
  "one_iteration logging_world 5 initial_sa_valmat ''greedy'' (1 / 10) [] = (Raised UnboundLocalError, [''reset''])"
proof -
  have "select_action logging_world initial_sa_valmat ''greedy'' (1 / 10) 0 [''reset'']
          = (Inl UnboundLocalError, [''reset''])"
    by (simp add: select_action_def)
  then show ?thesis
    by (simp add: one_iteration_def init_env_def episode_loop_unfold logging_world_def)
qed

text \<open>
  C6: with \<open>epsilon = 0\<close> and a draw of at least 0, \<^verbatim>\<open>tiny_epsilon_choice\<close> returns the
  arg-max of the current averages of the state (the first index of the maximum) and does
  not call the random choice; with \<open>epsilon = 1\<close> and a draw below 1 it returns the
  random choice among the actions and does not look at the averages.
\<close>

theorem tiny_epsilon_choice_boundaries:
  "(0 \<le> fst (random_uniform R 0 1 w) \<longrightarrow>
      tiny_epsilon_choice R sa state rpm 0 w =
        (case slice3 sa state 0 of Inl e \<Rightarrow> Inl e | Inr vs \<Rightarrow> np_argmax vs,
         snd (random_uniform R 0 1 w)) \<and>
      (state < dim0 sa \<longrightarrow> 0 < dim1 sa \<longrightarrow> 0 < dim2 sa \<longrightarrow>
         (\<exists>a < dim1 sa. fst (tiny_epsilon_choice R sa state rpm 0 w) = Inr a \<and>
            (\<forall>j < dim1 sa. cells sa state j 0 \<le> cells sa state a 0) \<and>
            (\<forall>j < a. cells sa state j 0 < cells sa state a 0)))) \<and>
   (fst (random_uniform R 0 1 w) < 1 \<longrightarrow>
      tiny_epsilon_choice R sa state rpm 1 w =
        (case row2 rpm state of
           Inl e \<Rightarrow> (Inl e, snd (random_uniform R 0 1 w))
         | Inr p \<Rightarrow> np_random_choice R array_of_choices p (snd (random_uniform R 0 1 w))))"
proof (intro conjI impI)
  assume u: "0 \<le> fst (random_uniform R 0 1 w)"
  obtain x w1 where d: "random_uniform R 0 1 w = (x, w1)"
    by (cases "random_uniform R 0 1 w")
  with u have "0 \<le> x" by simp
  with d show eq: "tiny_epsilon_choice R sa state rpm 0 w =
        (case slice3 sa state 0 of Inl e \<Rightarrow> Inl e | Inr vs \<Rightarrow> np_argmax vs,
         snd (random_uniform R 0 1 w))"
    by (simp add: tiny_epsilon_choice_def split: sum.splits)
  assume r: "state < dim0 sa" "0 < dim1 sa" "0 < dim2 sa"
  let ?vs = "map (\<lambda>j. cells sa state j 0) [0..<dim1 sa]"
  have s: "slice3 sa state 0 = Inr ?vs" using r by (simp add: slice3_def)
  have "?vs \<noteq> []" using r by simp
  from np_argmax_first_maximum [OF this] obtain a where
    a: "np_argmax ?vs = Inr a" "a < length ?vs" "\<forall>k < length ?vs. ?vs ! k \<le> ?vs ! a" "\<forall>k < a. ?vs ! k < ?vs ! a"
    by blast
  have "a < dim1 sa" using a(2) by simp
  moreover have "fst (tiny_epsilon_choice R sa state rpm 0 w) = Inr a"
    using eq s a(1) by simp
  moreover have "\<forall>j < dim1 sa. cells sa state j 0 \<le> cells sa state a 0"
    using a(2,3) by simp
  moreover have "\<forall>j < a. cells sa state j 0 < cells sa state a 0"
    using a(2,4) by simp
  ultimately show "\<exists>a < dim1 sa. fst (tiny_epsilon_choice R sa state rpm 0 w) = Inr a \<and>
            (\<forall>j < dim1 sa. cells sa state j 0 \<le> cells sa state a 0) \<and>
            (\<forall>j < a. cells sa state j 0 < cells sa state a 0)"
    by blast
next
  assume u: "fst (random_uniform R 0 1 w) < 1"
  obtain x w1 where d: "random_uniform R 0 1 w = (x, w1)"
    by (cases "random_uniform R 0 1 w")
  with u have "\<not> 1 \<le> x" by simp
  with d show "tiny_epsilon_choice R sa state rpm 1 w =
        (case row2 rpm state of
           Inl e \<Rightarrow> (Inl e, snd (random_uniform R 0 1 w))
         | Inr p \<Rightarrow> np_random_choice R array_of_choices p (snd (random_uniform R 0 1 w)))"
    by (simp add: tiny_epsilon_choice_def split: sum.splits)
qed

theorem tiny_epsilon_choice_boundaries_witness:
  "0 \<le> fst (random_uniform ring_world 0 1 (0, 0)) \<and>
   fst (random_uniform ring_world 0 1 (0, 0)) < 1 \<and>
   (0::nat) < dim0 initial_sa_valmat \<and> 0 < dim1 initial_sa_valmat \<and> 0 < dim2 initial_sa_valmat \<and>
   tiny_epsilon_choice ring_world initial_sa_valmat 0 random_policy_matrix 0 (0, 0) = (Inr 0, (0, 1)) \<and>
   tiny_epsilon_choice ring_world initial_sa_valmat 0 random_policy_matrix 1 (0, 0) = (Inr 2, (0, 2))"
proof -
  have u: "random_uniform ring_world 0 1 (0, 0) = (0, (0, 1))"
    by (simp add: ring_world_def)
  have s: "slice3 initial_sa_valmat 0 0 = Inr [1 / 100, 1 / 100, 1 / 100, 1 / 100]"
    by (simp add: slice3_def upt_4)
  have a: "np_argmax [1 / 100, 1 / 100, 1 / 100, 1 / 100 :: real] = Inr 0"
    by (simp add: np_argmax_def)
  have c: "np_random_choice ring_world array_of_choices (map (elems random_policy_matrix 0) [0..<4]) (0, 1)
             = (Inr 2, (0, 2))"
    by (simp add: np_random_choice_def ring_choice length_array_of_choices)
  have r: "row2 random_policy_matrix 0 = Inr (map (elems random_policy_matrix 0) [0..<4])"
    by (simp add: row2_random_policy_matrix)
  note t = tiny_epsilon_choice_boundaries [of ring_world "(0, 0)" initial_sa_valmat 0 random_policy_matrix]
  have t0: "tiny_epsilon_choice ring_world initial_sa_valmat 0 random_policy_matrix 0 (0, 0) = (Inr 0, (0, 1))"
    using t by (simp only: u s a fst_conv snd_conv sum.case order_refl)
  have t1: "tiny_epsilon_choice ring_world initial_sa_valmat 0 random_policy_matrix 1 (0, 0) = (Inr 2, (0, 2))"
    using t by (simp only: u r c fst_conv snd_conv sum.case zero_less_one)
  from t0 t1 show ?thesis by (simp add: u)
qed

text \<open>
  C3 says that \<^verbatim>\<open>train_and_test\<close> runs the warm-up, the training episodes and the test
  episodes and returns the four figures. The code misses that by a slip of names: the
  test loop adds the reward of the episode to \<^verbatim>\<open>wins\<close>, where the counter bound at the
  top of the function is \<^verbatim>\<open>test_wins\<close>. In the logging world, with one training episode
  and one test episode, the 10 warm-up episodes, the training episode and the test
  episode run, each with its reset, its draw and its step, and then the run stops with
  UnboundLocalError, whatever the notebook binds to the global \<^verbatim>\<open>test_win\<close>: it returns
  no tuple.
\<close>

theorem train_and_test_unbound_wins:
  "train_and_test logging_world 5 test_win ''random'' 1 1 [] =
     (Raised UnboundLocalError,
      concat (replicate 11 [''reset'', ''choice'', ''step'']) @ [''reset'', ''uniform'', ''step''])"
  by (rule logging_train_and_test)

section \<open>Policy evaluation: the loop and its results\<close>

lemma upt_2: "[0..<2] = [0, 1]"
  by (simp add: upt_conv_Cons)



lemma iteration_loop_unfold:
  "0 < n \<Longrightarrow>
   iteration_loop n environment discount_factor policy =
     (case policy_evaluation policy environment discount_factor (1 / 10 ^ 9) (10 ^ 9) of
        Inl e \<Rightarrow> Inl e
      | Inr V \<Rightarrow>
          (case improve environment discount_factor V [0..<nS environment] policy True of
             Inl e \<Rightarrow> Inl e
           | Inr (policy', stable_policy) \<Rightarrow>
               if stable_policy then Inr (Some (policy', V))
               else iteration_loop (n - 1) environment discount_factor policy'))"
  by (cases n) (auto split: sum.splits prod.splits)


lemma edge_env_shape [simp]: "nS edge_env = 2" "nA edge_env = 2"
  by (simp_all add: edge_env_def)




lemma edge_P:
  "P_lookup edge_env 0 0 = Inr [(1, 1, 1 - 1 / 2 ^ 51, True)]"
  "P_lookup edge_env 0 1 = Inr [(1, 0, 1 - 1 / 1024, False)]"
  "P_lookup edge_env 0 (Suc 0) = Inr [(1, 0, 1 - 1 / 1024, False)]"
  "P_lookup edge_env (Suc 0) 0 = Inr [(1, 1, 0, True)]"
  "P_lookup edge_env (Suc 0) (Suc 0) = Inr [(1, 1, 0, True)]"
  "P_lookup edge_env 0 (Suc (Suc 0)) = Inl KeyError"
  by (simp_all add: edge_env_def P_lookup_def)

lemma edge_env_complete: "table_complete edge_env"
  by (simp add: table_complete_def upt_2 edge_P)






























section \<open>Policy iteration: the rounds and their results\<close>


























section \<open>The claims about the policy-iteration solver\<close>







end
